theory Spec2Isabelle
  imports Main "HOL-Library.Sublist"
begin

section \<open>Strings and the Python built-ins the sanitizer uses\<close>

text \<open>
  A Python \<open>str\<close> is modelled as a \<open>string\<close>: a list of characters, each read as the
  code point of that number (the code points below 256). \<open>is_space\<close> is
  \<open>str.isspace\<close> on these code points: tab, line feed, vertical tab, form feed,
  carriage return, the four separators 0x1C to 0x1F, space, NEL (0x85) and the
  no-break space (0xA0). \<open>strip\<close> is \<open>str.strip()\<close> without argument.
\<close>

definition NL :: char where
  "NL = CHR 0x0A"

definition is_space :: "char \<Rightarrow> bool" where
  "is_space c \<longleftrightarrow> c \<in> set [CHR 0x09, CHR 0x0A, CHR 0x0B, CHR 0x0C, CHR 0x0D,
                           CHR 0x1C, CHR 0x1D, CHR 0x1E, CHR 0x1F, CHR 0x20,
                           CHR 0x85, CHR 0xA0]"

definition strip :: "string \<Rightarrow> string" where
  "strip s = rev (dropWhile is_space (rev (dropWhile is_space s)))"

text \<open>
  Exceptions are values; the string is \<open>str(e)\<close>. \<open>PyException\<close> is an instance of
  \<open>Exception\<close> (of any subclass), the exceptions \<open>except Exception\<close> catches;
  \<open>PyBaseException\<close> is an instance of \<open>BaseException\<close> that is not one of
  \<open>Exception\<close> (\<open>KeyboardInterrupt\<close>, \<open>SystemExit\<close>, \<open>GeneratorExit\<close>), which
  \<open>except Exception\<close> lets through.
\<close>

datatype py_exception = PyException (message: string) | PyBaseException (message: string)

definition IndexError :: py_exception where
  "IndexError = PyException ''list index out of range''"

text \<open>\<open>xs[-1]\<close>: the last element, IndexError on the empty list.\<close>

definition py_last :: "'a list \<Rightarrow> py_exception + 'a" where
  "py_last xs = (if xs = [] then Inl IndexError else Inr (last xs))"

section \<open>clean\_sql\_output\<close>

definition fence :: string where
  "fence = ''```''"

definition fence_sql :: string where
  "fence_sql = ''```sql''"

text \<open>
  \<open>re.sub(r"```sql|```", "", sql)\<close>: scan from the left; at each position try
  the alternatives in order, delete the match and go on behind it; otherwise keep the
  character.
\<close>

function re_sub_fences :: "string \<Rightarrow> string" where
  "re_sub_fences [] = []"
| "re_sub_fences (c # cs) =
     (if prefix fence_sql (c # cs) then re_sub_fences (drop (length fence_sql) (c # cs))
      else if prefix fence (c # cs) then re_sub_fences (drop (length fence) (c # cs))
      else c # re_sub_fences cs)"
  by pat_completeness auto
termination
  by (relation "measure length") (auto simp: fence_def fence_sql_def)

definition sql_keywords :: "string list" where
  "sql_keywords = [''SELECT'', ''WITH'', ''INSERT'', ''UPDATE'', ''DELETE'']"

text \<open>The lookahead \<open>(?=SELECT|WITH|INSERT|UPDATE|DELETE)\<close> at the text \<open>cs\<close>.\<close>

definition lookahead_keyword :: "string \<Rightarrow> bool" where
  "lookahead_keyword cs = list_ex (\<lambda>k. prefix k cs) sql_keywords"

text \<open>
  The leftmost match of \<open>\n(?=SELECT|WITH|INSERT|UPDATE|DELETE)\<close>: the index of the
  first line feed that a keyword follows.
\<close>

fun search_boundary :: "string \<Rightarrow> nat option" where
  "search_boundary [] = None"
| "search_boundary (c # cs) =
     (if c = NL \<and> lookahead_keyword cs then Some 0
      else map_option Suc (search_boundary cs))"

text \<open>
  \<open>re.split(pattern, sql, maxsplit=1)\<close>: at most one split, at the leftmost match;
  the match itself (the line feed) is dropped.
\<close>

definition re_split_boundary :: "string \<Rightarrow> string list" where
  "re_split_boundary s =
     (case search_boundary s of
        None \<Rightarrow> [s]
      | Some i \<Rightarrow> [take i s, drop (Suc i) s])"

definition clean_sql_output :: "string \<Rightarrow> py_exception + string" where
  "clean_sql_output sql0 =
     (let sql1 = strip sql0;
          sql2 = strip (re_sub_fences sql1)
      in case py_last (re_split_boundary sql2) of
           Inl e \<Rightarrow> Inl e
         | Inr sql3 \<Rightarrow> Inr (strip sql3))"

text \<open>The text has a line feed immediately followed by a keyword.\<close>

fun has_boundary :: "string \<Rightarrow> bool" where
  "has_boundary [] = False"
| "has_boundary (c # cs) = ((c = NL \<and> lookahead_keyword cs) \<or> has_boundary cs)"

text \<open>
  The spec's reading of the split, for comparison with the code: the text from the last
  keyword-initial line onward (the whole text when no line feed is followed by a keyword).
\<close>

fun final_statement_block :: "string \<Rightarrow> string" where
  "final_statement_block [] = []"
| "final_statement_block (c # cs) =
     (if has_boundary cs then final_statement_block cs
      else if c = NL \<and> lookahead_keyword cs then cs
      else c # cs)"

section \<open>correct\_common\_sql\_errors\<close>

text \<open>
  \<open>str.replace(old, new)\<close>: the non-overlapping occurrences of \<open>old\<close>, found from the
  left, are replaced; an empty \<open>old\<close> matches before every character and at the end.
\<close>

function py_replace :: "string \<Rightarrow> string \<Rightarrow> string \<Rightarrow> string" where
  "py_replace old new [] = (if old = [] then new else [])"
| "py_replace old new (c # cs) =
     (if old = [] then new @ c # py_replace old new cs
      else if prefix old (c # cs) then new @ py_replace old new (drop (length old) (c # cs))
      else c # py_replace old new cs)"
  by pat_completeness auto
termination
  by (relation "measure (\<lambda>(old, new, s). length s)") auto

text \<open>The dictionary literal, in insertion order (the order \<open>items()\<close> iterates in).\<close>

definition corrections :: "(string \<times> string) list" where
  "corrections =
     [(''customer_id'', ''customerNumber''),
      (''order_id'', ''orderNumber''),
      (''order_details'', ''orderdetails''),
      (''product_id'', ''productCode''),
      (''products.price'', ''products.buyPrice'')]"

definition correct_common_sql_errors :: "string \<Rightarrow> string" where
  "correct_common_sql_errors query =
     foldl (\<lambda>query (wrong, right). py_replace wrong right query) query corrections"

text \<open>
  Two strings do not interfere: no occurrence of \<open>k\<close> in any text can overlap an
  occurrence of \<open>m\<close>, except that \<open>k\<close> may be \<open>m\<close> itself. \<open>no_straddle k m\<close>: no
  occurrence of \<open>k\<close> starts before \<open>m\<close> and reaches into it; \<open>no_start_in k m\<close>: none
  starts inside \<open>m\<close>.
\<close>

definition no_straddle :: "string \<Rightarrow> string \<Rightarrow> bool" where
  "no_straddle k m =
     list_all (\<lambda>z. z = [] \<or> z = k \<or> (\<not> prefix z m \<and> \<not> prefix m z)) (suffixes k)"

definition no_start_in :: "string \<Rightarrow> string \<Rightarrow> bool" where
  "no_start_in k m =
     list_all (\<lambda>z. z = [] \<or> (\<not> prefix k z \<and> \<not> prefix z k)) (suffixes m)"

text \<open>
  The loop of \<open>correct_common_sql_errors\<close> over any table, and a check that follows a
  marked piece \<open>m\<close> of the text through the passes: a pass whose key is \<open>m\<close> turns it
  into its value, a pass whose key cannot overlap \<open>m\<close> leaves it alone, and anything
  else gives up.
\<close>

definition replace_all :: "(string \<times> string) list \<Rightarrow> string \<Rightarrow> string" where
  "replace_all cs query = foldl (\<lambda>query (wrong, right). py_replace wrong right query) query cs"

fun track :: "(string \<times> string) list \<Rightarrow> string \<Rightarrow> string option" where
  "track [] m = Some m"
| "track ((k, v) # cs) m =
     (if k = [] then None
      else if m = k \<and> no_straddle k k then track cs v
      else if no_straddle k m \<and> no_start_in k m then track cs m
      else None)"

section \<open>The process state and the external collaborators\<close>

text \<open>
  The question is passed through the pipeline unread, so its type is a parameter \<open>'q\<close>.
  A transcript is a list of messages; a \<open>ChatMessageHistory\<close> object is a handle (its
  identity) into \<open>histories\<close>, so that two references to one object see each other's
  appends.

  The state of the process: \<open>store\<close> is the module-level dictionary, \<open>histories\<close> and
  \<open>next_handle\<close> the heap of transcript objects, \<open>schema_cache\<close> the slot of
  \<open>lru_cache\<close>, \<open>stdout\<close> the texts handed to \<open>print\<close>. Three fields record the calls made
  to the collaborators, so that properties can speak of them: \<open>introspections\<close> counts
  the calls of \<open>db.get_table_info()\<close>, \<open>executed\<close> lists the queries handed to
  \<open>db.run\<close>, \<open>rephrased\<close> lists the inputs of the rephrasing chain.
\<close>

datatype 'q message = HumanMessage 'q | AIMessage string

datatype py_value = PyStr string | PyDict "(string \<times> string) list"

datatype prompt_template = PromptTemplate string

record 'q world =
  store :: "string \<rightharpoonup> nat"
  histories :: "nat \<rightharpoonup> 'q message list"
  next_handle :: nat
  schema_cache :: "string option"
  introspections :: nat
  executed :: "string list"
  rephrased :: "('q \<times> string \<times> string) list"
  stdout :: "string list"

text \<open>
  What the code calls and does not define: \<open>db.get_table_info()\<close> (its result at the
  n-th call), \<open>db.run(query)\<close> (its result after n earlier runs; it returns a string, the
  empty one for no rows), \<open>PromptTemplate.from_template\<close> (whether it raises on a
  template text), the two model calls, \<open>print\<close> (whether the n-th call raises, for
  instance on a closed or badly encoded output stream), and \<open>repr\<close> on strings. Every
  one of them but \<open>repr\<close> may raise.
\<close>

record 'q env =
  table_info :: "nat \<Rightarrow> py_exception + string"
  db_run :: "nat \<Rightarrow> string \<Rightarrow> py_exception + string"
  template_error :: "string \<Rightarrow> py_exception option"
  print_result :: "nat \<Rightarrow> string \<Rightarrow> py_exception option"
  llm_sql :: "prompt_template \<Rightarrow> 'q message list \<Rightarrow> 'q \<Rightarrow> py_exception + string"
  llm_answer :: "'q \<Rightarrow> string \<Rightarrow> string \<Rightarrow> py_exception + string"
  py_repr :: "string \<Rightarrow> string"

definition initial_world :: "'q world" where
  "initial_world =
     \<lparr>store = Map.empty, histories = Map.empty, next_handle = 0, schema_cache = None,
      introspections = 0, executed = [], rephrased = [], stdout = []\<rparr>"

section \<open>Session memory\<close>

definition get_memory :: "string \<Rightarrow> 'q world \<Rightarrow> nat \<times> 'q world" where
  "get_memory session_id w =
     (case store w session_id of
        None \<Rightarrow>
          let h = next_handle w
          in (h, w\<lparr>store := (store w)(session_id \<mapsto> h),
                   histories := (histories w)(h \<mapsto> []),
                   next_handle := Suc h\<rparr>)
      | Some h \<Rightarrow> (h, w))"

definition messages :: "'q world \<Rightarrow> nat \<Rightarrow> 'q message list" where
  "messages w h = (case histories w h of None \<Rightarrow> [] | Some ms \<Rightarrow> ms)"

definition add_messages :: "nat \<Rightarrow> 'q message list \<Rightarrow> 'q world \<Rightarrow> 'q world" where
  "add_messages h ms w = w\<lparr>histories := (histories w)(h \<mapsto> messages w h @ ms)\<rparr>"

definition session_messages :: "'q world \<Rightarrow> string \<Rightarrow> 'q message list" where
  "session_messages w session_id =
     (case store w session_id of None \<Rightarrow> [] | Some h \<Rightarrow> messages w h)"

section \<open>Schema description caching\<close>

text \<open>
  \<open>@lru_cache()\<close> on a function without arguments: one cache slot. A call that raises
  stores nothing.
\<close>

definition get_schema_description ::
  "'q env \<Rightarrow> 'q world \<Rightarrow> (py_exception + string) \<times> 'q world" where
  "get_schema_description env w =
     (case schema_cache w of
        Some v \<Rightarrow> (Inr v, w)
      | None \<Rightarrow>
          (case table_info env (introspections w) of
             Inl e \<Rightarrow> (Inl e, w\<lparr>introspections := Suc (introspections w)\<rparr>)
           | Inr v \<Rightarrow> (Inr v, w\<lparr>introspections := Suc (introspections w),
                                 schema_cache := Some v\<rparr>)))"

fun schema_calls ::
  "'q env \<Rightarrow> nat \<Rightarrow> 'q world \<Rightarrow> (py_exception + string) list \<times> 'q world" where
  "schema_calls env 0 w = ([], w)"
| "schema_calls env (Suc n) w =
     (case get_schema_description env w of
        (r, w1) \<Rightarrow> (case schema_calls env n w1 of (rs, w2) \<Rightarrow> (r # rs, w2)))"

section \<open>Prompt, generation, execution, rephrasing\<close>

text \<open>Lines of text, each closed by a line feed.\<close>

definition py_lines :: "string list \<Rightarrow> string" where
  "py_lines ls = concat (map (\<lambda>l. l @ [NL]) ls)"

definition EXAMPLES :: string where
  "EXAMPLES = py_lines
     [[],
      ''Examples:'',
      [],
      ''Q: List all customers from France.'',
      ''A:'',
      ''SELECT customerName FROM customers WHERE country = '' @ [CHR 0x27] @ ''France''
        @ [CHR 0x27] @ '';'',
      [],
      ''Q: Which product has the highest price?'',
      ''A:'',
      ''SELECT productName FROM products ORDER BY buyPrice DESC LIMIT 1;'',
      [],
      ''Q: What is the total payment amount received?'',
      ''A:'',
      ''SELECT SUM(amount) FROM payments;'',
      [],
      ''Q: How many orders were placed by each customer?'',
      ''A:'',
      ''SELECT customerNumber, COUNT(*) as order_count FROM orders GROUP BY customerNumber;'']"

text \<open>
  The f-string of \<open>build_sql_prompt\<close>: the schema and the examples are pasted into the
  text, and the doubled braces become the two placeholders.
\<close>

definition sql_prompt_text :: "string \<Rightarrow> string" where
  "sql_prompt_text schema =
     py_lines
       [''You are an expert SQL assistant.'',
        ''Use the schema and examples below to write a valid MySQL query for the user''
          @ [CHR 0x27] @ ''s question.'',
        ''Only return the raw SQL query without explanation or markdown formatting.'',
        [],
        ''Schema:'']
     @ schema @ [NL, NL] @ EXAMPLES @ [NL, NL]
     @ py_lines [''Chat History:'', ''{chat_history}'', [], ''User: {question}'']
     @ ''SQL:''"

text \<open>
  \<open>PromptTemplate.from_template\<close> parses the pasted text, so a schema with braces
  can make it raise, or add a variable that the later invocation (\<open>llm_sql\<close>) misses.
\<close>

definition build_sql_prompt ::
  "'q env \<Rightarrow> 'q world \<Rightarrow> (py_exception + prompt_template) \<times> 'q world" where
  "build_sql_prompt env w =
     (case get_schema_description env w of
        (Inl e, w1) \<Rightarrow> (Inl e, w1)
      | (Inr schema, w1) \<Rightarrow>
          (case template_error env (sql_prompt_text schema) of
             Some e \<Rightarrow> (Inl e, w1)
           | None \<Rightarrow> (Inr (PromptTemplate (sql_prompt_text schema)), w1)))"

text \<open>
  Modelled from the spec: \<open>memory_chain.invoke\<close> runs \<open>RunnableWithMessageHistory\<close>, a
  library class whose code is not under src/. Section 4.4 of the spec: it loads the
  transcript of the session through \<open>get_session_history\<close> (here \<open>get_memory\<close>), invokes
  the model on the template, the transcript and the question, and appends the exchange
  to the transcript; an error of the model surfaces to the caller.
\<close>

definition memory_chain_invoke ::
  "'q env \<Rightarrow> prompt_template \<Rightarrow> 'q \<Rightarrow> string \<Rightarrow> 'q world
     \<Rightarrow> (py_exception + string) \<times> 'q world" where
  "memory_chain_invoke env sql_prompt question session_id w =
     (case get_memory session_id w of
        (h, w1) \<Rightarrow>
          (case llm_sql env sql_prompt (messages w1 h) question of
             Inl e \<Rightarrow> (Inl e, w1)
           | Inr raw_sql \<Rightarrow>
               (Inr raw_sql, add_messages h [HumanMessage question, AIMessage raw_sql] w1)))"

text \<open>\<open>print(text)\<close>: \<open>None\<close> when it returns, the exception when it raises.\<close>

definition print :: "'q env \<Rightarrow> string \<Rightarrow> 'q world \<Rightarrow> py_exception option \<times> 'q world" where
  "print env text w =
     (print_result env (length (stdout w)) text, w\<lparr>stdout := stdout w @ [text]\<rparr>)"

definition run_db :: "'q env \<Rightarrow> string \<Rightarrow> 'q world \<Rightarrow> (py_exception + string) \<times> 'q world" where
  "run_db env query w =
     (db_run env (length (executed w)) query, w\<lparr>executed := executed w @ [query]\<rparr>)"

text \<open>
  The \<open>try\<close> block of \<open>execute_query\<close>: the print, the run, the return. Whatever one
  of them raises leaves the block.
\<close>

definition execute_query_try ::
  "'q env \<Rightarrow> string \<Rightarrow> 'q world \<Rightarrow> (py_exception + py_value) \<times> 'q world" where
  "execute_query_try env query w =
     (case print env (NL # ''Executing SQL Query:'' @ NL # query) w of
        (Some e, w1) \<Rightarrow> (Inl e, w1)
      | (None, w1) \<Rightarrow>
          (case run_db env query w1 of
             (Inl e, w2) \<Rightarrow> (Inl e, w2)
           | (Inr result, w2) \<Rightarrow>
               (Inr (if result \<noteq> [] then PyStr result
                     else PyDict [(''info'', ''No results found.'')]), w2)))"

text \<open>
  The function with its handler. \<open>except Exception as e\<close> takes the instances of
  \<open>Exception\<close> only; any other exception goes on to the caller, and so does one that
  the print in the handler raises.
\<close>

definition execute_query ::
  "'q env \<Rightarrow> string \<Rightarrow> 'q world \<Rightarrow> (py_exception + py_value) \<times> 'q world" where
  "execute_query env query w =
     (case execute_query_try env query w of
        (Inr v, w1) \<Rightarrow> (Inr v, w1)
      | (Inl e, w1) \<Rightarrow>
          (if is_PyException e then
             (case print env (NL # ''SQL Execution Error: '' @ message e) w1 of
                (Some e', w2) \<Rightarrow> (Inl e', w2)
              | (None, w2) \<Rightarrow>
                  (Inr (PyDict [(''error'', ''Query failed: '' @ message e)]), w2))
           else (Inl e, w1)))"

text \<open>\<open>str(sql_result)\<close>: a string is itself; a dict prints its items with \<open>repr\<close>.\<close>

fun dict_items_str :: "(string \<Rightarrow> string) \<Rightarrow> (string \<times> string) list \<Rightarrow> string" where
  "dict_items_str r [] = []"
| "dict_items_str r [(k, v)] = r k @ '': '' @ r v"
| "dict_items_str r ((k, v) # kvs) = r k @ '': '' @ r v @ '', '' @ dict_items_str r kvs"

fun py_str :: "(string \<Rightarrow> string) \<Rightarrow> py_value \<Rightarrow> string" where
  "py_str r (PyStr s) = s"
| "py_str r (PyDict kvs) = ''{'' @ dict_items_str r kvs @ ''}''"

definition rephrase_chain_invoke ::
  "'q env \<Rightarrow> 'q \<Rightarrow> string \<Rightarrow> string \<Rightarrow> 'q world \<Rightarrow> (py_exception + string) \<times> 'q world" where
  "rephrase_chain_invoke env question query result w =
     (llm_answer env question query result,
      w\<lparr>rephrased := rephrased w @ [(question, query, result)]\<rparr>)"

section \<open>process\_question and the HTTP view\<close>

text \<open>
  The parameter \<open>session_id="user-1"\<close>: \<open>None\<close> is the call without the argument.
\<close>

definition process_question ::
  "'q env \<Rightarrow> 'q \<Rightarrow> string option \<Rightarrow> 'q world \<Rightarrow> (py_exception + string) \<times> 'q world" where
  "process_question env question session_arg w =
     (let session_id = (case session_arg of None \<Rightarrow> ''user-1'' | Some s \<Rightarrow> s)
      in case build_sql_prompt env w of
           (Inl e, w1) \<Rightarrow> (Inl e, w1)
         | (Inr sql_prompt, w1) \<Rightarrow>
             (case memory_chain_invoke env sql_prompt question session_id w1 of
                (Inl e, w2) \<Rightarrow> (Inl e, w2)
              | (Inr raw_sql, w2) \<Rightarrow>
                  (case clean_sql_output raw_sql of
                     Inl e \<Rightarrow> (Inl e, w2)
                   | Inr cleaned \<Rightarrow>
                       (let clean_query = correct_common_sql_errors cleaned
                        in case execute_query env clean_query w2 of
                             (Inl e, w3) \<Rightarrow> (Inl e, w3)
                           | (Inr sql_result, w3) \<Rightarrow>
                               rephrase_chain_invoke env question clean_query
                                 (py_str (py_repr env) sql_result) w3))))"

text \<open>
  \<open>AskQuestion.post\<close>: \<open>request.data\<close> is a dictionary of strings; the question is
  \<open>data.get("question")\<close>, which is \<open>None\<close> when the key is missing.
\<close>

definition AskQuestion_post ::
  "(string option) env \<Rightarrow> (string \<rightharpoonup> string) \<Rightarrow> (string option) world
     \<Rightarrow> (py_exception + (string \<times> string) list) \<times> (string option) world" where
  "AskQuestion_post env data w =
     (let question = data ''question'';
          session_id = (case data ''session_id'' of None \<Rightarrow> ''default-session'' | Some s \<Rightarrow> s)
      in case process_question env question (Some session_id) w of
           (Inl e, w1) \<Rightarrow> (Inl e, w1)
         | (Inr answer, w1) \<Rightarrow> (Inr [(''answer'', answer)], w1))"

section \<open>Test doubles and the invariant of the session store\<close>

text \<open>
  Collaborators for concrete runs. The model echoes a fenced query over the table named
  by the question and uses the column name \<open>customer_id\<close>; the database knows the table
  \<open>customers\<close> only; the rephraser quotes the result; \<open>repr\<close> is the one of a
  string without quotes or escapes; templates parse and prints return. In \<open>flaky_env\<close>
  the first introspection call fails and the later ones succeed. In \<open>interrupted_env\<close>
  the database run is interrupted from the keyboard.
\<close>

definition quoted :: "string \<Rightarrow> string" where
  "quoted s = CHR 0x27 # s @ [CHR 0x27]"

definition example_env :: "string env" where
  "example_env =
     \<lparr>table_info = (\<lambda>n. Inr ''customers(customerNumber)''),
      db_run = (\<lambda>n query.
         if query = ''SELECT customerNumber FROM customers'' then Inr ''[(103,), (112,)]''
         else if query = ''SELECT customerNumber FROM customers WHERE 0'' then Inr []
         else Inl (PyException ''(1146) table does not exist'')),
      template_error = (\<lambda>text. None),
      print_result = (\<lambda>n text. None),
      llm_sql = (\<lambda>p history question.
         Inr (''```sql'' @ NL # ''SELECT customer_id FROM '' @ question @ NL # ''```'')),
      llm_answer = (\<lambda>question query result. Inr (''Result: '' @ result)),
      py_repr = quoted\<rparr>"

definition flaky_env :: "string env" where
  "flaky_env =
     example_env\<lparr>table_info :=
       (\<lambda>n. if n = 0 then Inl (PyException ''connection refused'')
            else Inr ''customers(customerNumber)'')\<rparr>"

definition interrupted_env :: "string env" where
  "interrupted_env =
     example_env\<lparr>db_run := (\<lambda>n query. Inl (PyBaseException ''KeyboardInterrupt''))\<rparr>"

text \<open>A state with one session, \<open>a\<close>, that holds one message.\<close>

definition example_world :: "string world" where
  "example_world =
     add_messages 0 [HumanMessage ''hello''] (snd (get_memory ''a'' initial_world))"

text \<open>The same for the view, whose question may be \<open>None\<close>.\<close>

definition view_env :: "(string option) env" where
  "view_env =
     \<lparr>table_info = (\<lambda>n. Inr ''customers(customerNumber)''),
      db_run = (\<lambda>n query. Inr ''[(1,)]''),
      template_error = (\<lambda>text. None),
      print_result = (\<lambda>n text. None),
      llm_sql = (\<lambda>p history question. Inr ''SELECT 1''),
      llm_answer = (\<lambda>question query result. Inr (''Result: '' @ result)),
      py_repr = quoted\<rparr>"

text \<open>
  Every stored handle has been allocated, and no two session keys share a handle.
\<close>

definition wf_world :: "'q world \<Rightarrow> bool" where
  "wf_world w \<longleftrightarrow>
     (\<forall>k h. store w k = Some h \<longrightarrow> h < next_handle w) \<and>
     (\<forall>k k' h. store w k = Some h \<and> store w k' = Some h \<longrightarrow> k = k')"

section \<open>Properties\<close>

subsection \<open>Trimming, fences and boundaries\<close>

lemma strip_fixed:
  assumes "s = [] \<or> (\<not> is_space (hd s) \<and> \<not> is_space (last s))"
  shows "strip s = s"
proof (cases "s = []")
  case True
  then show ?thesis by (simp add: strip_def)
next
  case False
  with assms have h: "\<not> is_space (hd s)" and l: "\<not> is_space (last s)" by auto
  from False h have 1: "dropWhile is_space s = s"
    by (simp add: dropWhile_eq_self_iff)
  from False l have 2: "dropWhile is_space (rev s) = rev s"
    by (simp add: dropWhile_eq_self_iff hd_rev)
  show ?thesis by (simp add: strip_def 1 2)
qed

lemma strip_ends: "strip s = [] \<or> (\<not> is_space (hd (strip s)) \<and> \<not> is_space (last (strip s)))"
proof (cases "strip s = []")
  case True
  then show ?thesis by simp
next
  case False
  define t where "t = dropWhile is_space s"
  define u where "u = dropWhile is_space (rev t)"
  have s: "strip s = rev u" by (simp add: strip_def t_def u_def)
  with False have u: "u \<noteq> []" by simp
  then have t: "t \<noteq> []" by (auto simp: u_def)
  from u have "\<not> is_space (hd u)" unfolding u_def by (rule hd_dropWhile)
  then have A: "\<not> is_space (last (strip s))" using u by (simp add: s last_rev)
  have "suffix u (rev t)" unfolding u_def by (rule suffix_dropWhile)
  then obtain w where "rev t = w @ u" by (auto simp: suffix_def)
  then have "last (rev t) = last u" using u by simp
  then have "last u = hd t" using t by (simp add: last_rev)
  moreover have "\<not> is_space (hd t)" using t unfolding t_def by (rule hd_dropWhile)
  ultimately have B: "\<not> is_space (hd (strip s))" using u by (simp add: s hd_rev)
  from A B show ?thesis by simp
qed

lemma strip_idem: "strip (strip s) = strip s"
  by (rule strip_fixed) (rule strip_ends)

lemma prefix_fence_sql: "prefix fence_sql s \<Longrightarrow> prefix fence s"
  by (auto simp: fence_def fence_sql_def prefix_def)

lemma re_sub_fences_keep:
  "\<not> prefix fence (c # cs) \<Longrightarrow> re_sub_fences (c # cs) = c # re_sub_fences cs"
  using prefix_fence_sql[of "c # cs"] by auto

lemma prefix_fence_Cons3:
  "prefix fence (a # b # c # cs) \<longleftrightarrow> a = CHR 0x60 \<and> b = CHR 0x60 \<and> c = CHR 0x60"
  by (auto simp: fence_def)

lemma prefix_fence_short:
  "\<not> prefix fence []" "\<not> prefix fence [a]" "\<not> prefix fence [a, b]"
  by (simp_all add: fence_def)

lemma no_fence_prefix:
  assumes "\<not> prefix fence s"
  shows "\<not> prefix fence (re_sub_fences s)"
proof (cases s)
  case Nil
  then show ?thesis by (simp add: fence_def)
next
  case s: (Cons a as)
  show ?thesis
  proof (cases as)
    case Nil
    with s show ?thesis by (simp add: fence_def fence_sql_def)
  next
    case as: (Cons b bs)
    show ?thesis
    proof (cases bs)
      case Nil
      with s as show ?thesis
        by (simp add: re_sub_fences_keep prefix_fence_short del: re_sub_fences.simps(2))
    next
      case bs: (Cons c cs)
      from assms s as bs have n: "\<not> (a = CHR 0x60 \<and> b = CHR 0x60 \<and> c = CHR 0x60)"
        by (simp add: prefix_fence_Cons3)
      from assms s have 1: "re_sub_fences s = a # re_sub_fences as"
        by (simp add: re_sub_fences_keep del: re_sub_fences.simps(2))
      show ?thesis
      proof (cases "a = CHR 0x60")
        case False
        with 1 show ?thesis by (simp add: fence_def)
      next
        case a: True
        show ?thesis
        proof (cases "b = CHR 0x60")
          case False
          then have "\<not> prefix fence as" by (simp add: as fence_def)
          then have "re_sub_fences as = b # re_sub_fences bs"
            unfolding as by (rule re_sub_fences_keep)
          with 1 False show ?thesis by (simp add: fence_def)
        next
          case True
          with a n have c: "c \<noteq> CHR 0x60" by simp
          then have "\<not> prefix fence as" by (simp add: as bs fence_def)
          then have 2: "re_sub_fences as = b # re_sub_fences bs"
            unfolding as by (rule re_sub_fences_keep)
          from c have "\<not> prefix fence bs" by (simp add: bs fence_def)
          then have "re_sub_fences bs = c # re_sub_fences cs"
            unfolding bs by (rule re_sub_fences_keep)
          with 1 2 c show ?thesis by (simp add: fence_def)
        qed
      qed
    qed
  qed
qed

lemma re_sub_fences_no_fence: "\<not> sublist fence (re_sub_fences s)"
proof (induction s rule: re_sub_fences.induct)
  case 1
  then show ?case by (simp add: fence_def)
next
  case (2 c cs)
  show ?case
  proof (cases "prefix fence (c # cs)")
    case True
    with 2 show ?thesis by auto
  next
    case False
    then have nf: "\<not> prefix fence_sql (c # cs)"
      by (auto simp: fence_def fence_sql_def prefix_def)
    from False have "\<not> prefix fence (re_sub_fences (c # cs))"
      by (rule no_fence_prefix)
    with False nf 2 show ?thesis
      by (simp add: sublist_Cons_right)
  qed
qed

lemma search_boundary_None: "search_boundary s = None \<longleftrightarrow> \<not> has_boundary s"
  by (induction s) auto

lemma has_boundary_iff:
  "has_boundary s \<longleftrightarrow> (\<exists>pre post. s = pre @ NL # post \<and> lookahead_keyword post)"
proof (induction s)
  case Nil
  then show ?case by simp
next
  case (Cons c cs)
  show ?case
  proof
    assume "has_boundary (c # cs)"
    then consider "c = NL" "lookahead_keyword cs" | "has_boundary cs" by auto
    then show "\<exists>pre post. c # cs = pre @ NL # post \<and> lookahead_keyword post"
    proof cases
      case 1
      then have "c # cs = [] @ NL # cs \<and> lookahead_keyword cs" by simp
      then show ?thesis by blast
    next
      case 2
      with Cons.IH obtain pre post where "cs = pre @ NL # post" "lookahead_keyword post" by auto
      then have "c # cs = (c # pre) @ NL # post \<and> lookahead_keyword post" by simp
      then show ?thesis by blast
    qed
  next
    assume "\<exists>pre post. c # cs = pre @ NL # post \<and> lookahead_keyword post"
    then obtain pre post where p: "c # cs = pre @ NL # post" "lookahead_keyword post" by auto
    show "has_boundary (c # cs)"
    proof (cases pre)
      case Nil
      with p show ?thesis by simp
    next
      case (Cons a pre')
      with p have "cs = pre' @ NL # post" by simp
      with p(2) Cons.IH show ?thesis by auto
    qed
  qed
qed

lemma lookahead_keyword_append: "lookahead_keyword s \<Longrightarrow> lookahead_keyword (s @ t)"
  by (auto simp: lookahead_keyword_def list_ex_iff intro: prefix_prefix)

lemma has_boundary_sublist:
  assumes "sublist t s" "has_boundary t"
  shows "has_boundary s"
proof -
  from assms(2) obtain pre post where t: "t = pre @ NL # post" "lookahead_keyword post"
    by (auto simp: has_boundary_iff)
  from assms(1) obtain a b where "s = a @ t @ b" by (auto simp: sublist_def)
  with t have "s = (a @ pre) @ NL # (post @ b)" by simp
  moreover have "lookahead_keyword (post @ b)" using t(2) by (rule lookahead_keyword_append)
  ultimately show ?thesis unfolding has_boundary_iff by blast
qed

lemma strip_sublist: "sublist (strip s) s"
proof -
  have "sublist (dropWhile is_space (rev (dropWhile is_space s))) (rev (dropWhile is_space s))"
    by (rule sublist_dropWhile)
  then have "sublist (strip s) (dropWhile is_space s)"
    by (simp add: strip_def sublist_rev_left)
  moreover have "sublist (dropWhile is_space s) s"
    by (rule sublist_dropWhile)
  ultimately show ?thesis
    using sublist_order.order_trans by blast
qed

lemma re_sub_fences_id: "\<not> sublist fence s \<Longrightarrow> re_sub_fences s = s"
proof (induction s)
  case Nil
  then show ?case by simp
next
  case (Cons c cs)
  then have "\<not> prefix fence (c # cs)" "\<not> sublist fence cs"
    by (auto simp: sublist_Cons_right)
  with Cons.IH prefix_fence_sql[of "c # cs"] show ?case
    by auto
qed

lemma re_split_boundary_last:
  "last (re_split_boundary t) = (case search_boundary t of None \<Rightarrow> t | Some i \<Rightarrow> drop (Suc i) t)"
  by (simp add: re_split_boundary_def split: option.splits)

lemma re_split_boundary_sublist: "sublist (last (re_split_boundary t)) t"
  by (simp add: re_split_boundary_last split: option.splits)

lemma clean_sql_output_eq:
  "clean_sql_output s =
     Inr (strip (last (re_split_boundary (strip (re_sub_fences (strip s))))))"
  by (simp add: clean_sql_output_def py_last_def re_split_boundary_def Let_def
      split: option.splits)

lemma clean_sql_output_sublist:
  "sublist (strip (last (re_split_boundary (strip (re_sub_fences (strip s))))))
     (re_sub_fences (strip s))"
proof -
  let ?t = "strip (re_sub_fences (strip s))"
  have "sublist (strip (last (re_split_boundary ?t))) (last (re_split_boundary ?t))"
    by (rule strip_sublist)
  also have "sublist (last (re_split_boundary ?t)) ?t"
    by (rule re_split_boundary_sublist)
  also have "sublist ?t (re_sub_fences (strip s))"
    by (rule strip_sublist)
  finally show ?thesis .
qed

lemma clean_sql_output_id:
  assumes "\<not> sublist fence s" "\<not> has_boundary s"
  shows "clean_sql_output s = Inr (strip s)"
proof -
  have nf: "\<not> sublist fence (strip s)"
    using assms(1) strip_sublist[of s] sublist_order.order_trans by blast
  have nb: "\<not> has_boundary (strip s)"
    using assms(2) strip_sublist[of s] has_boundary_sublist by blast
  from nf have 1: "re_sub_fences (strip s) = strip s" by (rule re_sub_fences_id)
  from nb have 2: "search_boundary (strip s) = None" by (simp add: search_boundary_None)
  show ?thesis
    by (simp add: clean_sql_output_eq 1 strip_idem re_split_boundary_last 2)
qed

subsection \<open>No triple backtick survives\<close>

text \<open>
  C10. For every input, \<open>clean_sql_output\<close> returns a text without three consecutive
  backticks: the substitution deletes every such sequence wherever it stands (also in
  the middle of a statement or in a string literal), and what follows only takes a
  contiguous part of the text.
\<close>

theorem clean_sql_output_no_fence:
  "\<exists>r. clean_sql_output s = Inr r \<and> \<not> sublist fence r"
proof -
  let ?r = "strip (last (re_split_boundary (strip (re_sub_fences (strip s)))))"
  have "\<not> sublist fence ?r"
    using clean_sql_output_sublist[of s] re_sub_fences_no_fence[of "strip s"]
      sublist_order.order_trans by blast
  then show ?thesis by (simp add: clean_sql_output_eq)
qed

theorem clean_sql_output_no_fence_witness:
  "clean_sql_output (''SELECT x```y FROM ```t'') = Inr ''SELECT xy FROM t''
   \<and> (\<exists>r. clean_sql_output (''SELECT x```y FROM ```t'') = Inr r \<and> \<not> sublist fence r)"
  using clean_sql_output_no_fence[of "''SELECT x```y FROM ```t''"]
  by (simp add: clean_sql_output_eq strip_def is_space_def fence_def fence_sql_def
      re_split_boundary_last NL_def lookahead_keyword_def sql_keywords_def)

subsection \<open>Plain inputs\<close>

text \<open>
  C8. An input without triple backticks and without a line feed immediately followed by
  a keyword comes back trimmed and otherwise unchanged; applying the function to that
  result gives the same result again; and for every input the function returns a value
  (the index \<open>[-1]\<close> never fails).
\<close>

theorem clean_sql_output_plain:
  "(\<not> sublist fence s \<and> \<not> has_boundary s \<longrightarrow>
      clean_sql_output s = Inr (strip s) \<and>
      (case clean_sql_output s of Inl e \<Rightarrow> Inl e | Inr r \<Rightarrow> clean_sql_output r)
        = clean_sql_output s)
   \<and> (\<exists>r. clean_sql_output s = Inr r)"
proof -
  have "clean_sql_output (strip s) = Inr (strip s)"
    if "\<not> sublist fence s" "\<not> has_boundary s"
  proof -
    have "\<not> sublist fence (strip s)"
      using that(1) strip_sublist[of s] sublist_order.order_trans by blast
    moreover have "\<not> has_boundary (strip s)"
      using that(2) strip_sublist[of s] has_boundary_sublist by blast
    ultimately have "clean_sql_output (strip s) = Inr (strip (strip s))"
      by (rule clean_sql_output_id)
    then show ?thesis by (simp add: strip_idem)
  qed
  then show ?thesis
    by (auto simp: clean_sql_output_id) (simp add: clean_sql_output_eq)
qed

theorem clean_sql_output_plain_witness:
  "\<not> sublist fence (''  SELECT a'' @ NL # ''FROM t; '')
   \<and> \<not> has_boundary (''  SELECT a'' @ NL # ''FROM t; '')
   \<and> clean_sql_output (''  SELECT a'' @ NL # ''FROM t; '') = Inr (''SELECT a'' @ NL # ''FROM t;'')
   \<and> (case clean_sql_output (''  SELECT a'' @ NL # ''FROM t; '') of
          Inl e \<Rightarrow> Inl e | Inr r \<Rightarrow> clean_sql_output r)
        = clean_sql_output (''  SELECT a'' @ NL # ''FROM t; '')"
  using clean_sql_output_plain[of "''  SELECT a'' @ NL # ''FROM t; ''"]
  by (clarsimp simp: strip_def is_space_def fence_def NL_def lookahead_keyword_def
      sql_keywords_def sublist_Cons_right)

subsection \<open>The split at a keyword line\<close>

lemma keyword_no_NL: "k \<in> set sql_keywords \<Longrightarrow> NL \<notin> set k"
  by (auto simp: sql_keywords_def NL_def)

lemma lookahead_keyword_before_NL:
  assumes "lookahead_keyword (u @ NL # v)"
  shows "lookahead_keyword u"
proof -
  from assms obtain k where k: "k \<in> set sql_keywords" "prefix k (u @ NL # v)"
    by (auto simp: lookahead_keyword_def list_ex_iff)
  have "prefix k u"
  proof (rule ccontr)
    assume "\<not> prefix k u"
    with k(2) obtain us where us: "k = u @ us" "prefix us (NL # v)"
      by (auto simp: prefix_append)
    with \<open>\<not> prefix k u\<close> have "us \<noteq> []" by auto
    with us(2) have "hd us = NL" by (cases us) auto
    with \<open>us \<noteq> []\<close> us(1) have "NL \<in> set k" by (cases us) auto
    with keyword_no_NL[OF k(1)] show False by simp
  qed
  with k(1) show ?thesis by (auto simp: lookahead_keyword_def list_ex_iff)
qed

lemma search_boundary_first:
  assumes "lookahead_keyword post" "\<not> has_boundary pre"
  shows "search_boundary (pre @ NL # post) = Some (length pre)"
  using assms(2)
proof (induction pre)
  case Nil
  with assms(1) show ?case by simp
next
  case (Cons c pre)
  then have a: "\<not> (c = NL \<and> lookahead_keyword pre)" and b: "\<not> has_boundary pre" by auto
  from a have "\<not> (c = NL \<and> lookahead_keyword (pre @ NL # post))"
    using lookahead_keyword_before_NL by blast
  with Cons.IH[OF b] show ?case by simp
qed

lemma two_statements_clean:
  "clean_sql_output (''Here you go:'' @ NL # ''SELECT 1;'' @ NL # ''SELECT 2;'')
     = Inr (''SELECT 1;'' @ NL # ''SELECT 2;'')"
  by (simp add: clean_sql_output_eq strip_def is_space_def fence_def fence_sql_def
      re_split_boundary_last NL_def lookahead_keyword_def sql_keywords_def)

lemma two_statements_final:
  "strip (final_statement_block (''Here you go:'' @ NL # ''SELECT 1;'' @ NL # ''SELECT 2;''))
     = ''SELECT 2;''"
  by (simp add: strip_def is_space_def NL_def lookahead_keyword_def sql_keywords_def)

text \<open>
  C1, as the code has it. Let \<open>t\<close> be the input trimmed, with every fence marker
  deleted, and trimmed again. If \<open>t\<close> has a line feed immediately followed by a keyword,
  the function discards everything up to and including the first such line feed and
  returns the rest of \<open>t\<close>, trimmed: the text from the first keyword-initial line onward,
  later keyword-initial lines included.
\<close>

theorem clean_sql_output_first_boundary:
  assumes "strip (re_sub_fences (strip s)) = pre @ NL # post"
    and "lookahead_keyword post" and "\<not> has_boundary pre"
  shows "clean_sql_output s = Inr (strip post)"
proof -
  have "search_boundary (pre @ NL # post) = Some (length pre)"
    using assms(2,3) by (rule search_boundary_first)
  then show ?thesis
    by (simp add: clean_sql_output_eq assms(1) re_split_boundary_last)
qed

theorem clean_sql_output_first_boundary_witness:
  "strip (re_sub_fences (strip (''Here you go:'' @ NL # ''SELECT 1;'' @ NL # ''SELECT 2;'')))
     = ''Here you go:'' @ NL # ''SELECT 1;'' @ NL # ''SELECT 2;''
   \<and> lookahead_keyword (''SELECT 1;'' @ NL # ''SELECT 2;'')
   \<and> \<not> has_boundary ''Here you go:''
   \<and> clean_sql_output (''Here you go:'' @ NL # ''SELECT 1;'' @ NL # ''SELECT 2;'')
       = Inr (''SELECT 1;'' @ NL # ''SELECT 2;'')"
  using clean_sql_output_first_boundary[of
      "''Here you go:'' @ NL # ''SELECT 1;'' @ NL # ''SELECT 2;''"
      "''Here you go:''" "''SELECT 1;'' @ NL # ''SELECT 2;''"]
  by (simp add: strip_def is_space_def fence_def fence_sql_def NL_def lookahead_keyword_def
      sql_keywords_def)

text \<open>
  C1 as stated fails: with two keyword-initial lines the result starts at the first of
  them, not at the last.
\<close>

theorem clean_sql_output_last_boundary_counterexample:
  "has_boundary (''Here you go:'' @ NL # ''SELECT 1;'' @ NL # ''SELECT 2;'')
   \<and> strip (final_statement_block (''Here you go:'' @ NL # ''SELECT 1;'' @ NL # ''SELECT 2;''))
       = ''SELECT 2;''
   \<and> clean_sql_output (''Here you go:'' @ NL # ''SELECT 1;'' @ NL # ''SELECT 2;'')
       = Inr (''SELECT 1;'' @ NL # ''SELECT 2;'')
   \<and> clean_sql_output (''Here you go:'' @ NL # ''SELECT 1;'' @ NL # ''SELECT 2;'')
       \<noteq> Inr (strip (final_statement_block
                 (''Here you go:'' @ NL # ''SELECT 1;'' @ NL # ''SELECT 2;'')))"
proof -
  let ?X = "''Here you go:'' @ NL # ''SELECT 1;'' @ NL # ''SELECT 2;''"
  have 1: "has_boundary ?X"
    by (simp add: NL_def lookahead_keyword_def sql_keywords_def)
  have 2: "''SELECT 1;'' @ NL # ''SELECT 2;'' \<noteq> ''SELECT 2;''"
    by simp
  have 3: "clean_sql_output ?X \<noteq> Inr (strip (final_statement_block ?X))"
    unfolding two_statements_clean two_statements_final using 2
    by (simp only: sum.inject not_False_eq_True)
  show ?thesis
    by (rule conjI[OF 1 conjI[OF two_statements_final conjI[OF two_statements_clean 3]]])
qed

subsection \<open>Fenced inputs\<close>

lemma re_sub_fences_closing: "\<not> sublist fence xs \<Longrightarrow> re_sub_fences (xs @ fence) = xs"
proof (induction xs)
  case Nil
  show ?case by (simp add: fence_def fence_sql_def)
next
  case (Cons c cs)
  then have np: "\<not> prefix fence (c # cs)" and ns: "\<not> sublist fence cs"
    by (auto simp: sublist_Cons_right)
  from Cons.IH[OF ns] have IH: "re_sub_fences (cs @ fence) = cs" .
  show ?case
  proof (cases "prefix fence ((c # cs) @ fence)")
    case False
    then have "re_sub_fences (c # (cs @ fence)) = c # re_sub_fences (cs @ fence)"
      by (simp add: re_sub_fences_keep del: re_sub_fences.simps(2))
    with IH show ?thesis by simp
  next
    case True
    show ?thesis
    proof (cases cs)
      case Nil
      with True show ?thesis by (auto simp: fence_def fence_sql_def)
    next
      case cs: (Cons d ds)
      show ?thesis
      proof (cases ds)
        case Nil
        with cs True show ?thesis by (auto simp: fence_def fence_sql_def)
      next
        case (Cons e es)
        with cs True have "prefix fence (c # cs)"
          by (simp add: prefix_fence_Cons3)
        with np show ?thesis by simp
      qed
    qed
  qed
qed


lemma not_prefix_sql_fence:
  assumes "\<not> prefix ''sql'' body"
  shows "\<not> prefix ''sql'' (body @ fence)"
proof
  assume "prefix ''sql'' (body @ fence)"
  with assms obtain us where us: "''sql'' = body @ us" "prefix us fence"
    by (auto simp: prefix_append)
  with assms have "us \<noteq> []" by auto
  with us(2) have "hd us = CHR 0x60" by (cases us) (auto simp: fence_def)
  with \<open>us \<noteq> []\<close> have "CHR 0x60 \<in> set (body @ us)" by (cases us) auto
  moreover have "set (body @ us) = set ''sql''" using us(1) by simp
  ultimately have "CHR 0x60 \<in> set ''sql''" by (simp only:)
  then show False by simp
qed

lemma re_sub_fences_opening_sql: "re_sub_fences (fence_sql @ ys) = re_sub_fences ys"
  by (simp add: fence_sql_def)

lemma re_sub_fences_opening:
  assumes "\<not> prefix ''sql'' ys"
  shows "re_sub_fences (fence @ ys) = re_sub_fences ys"
  using assms by (simp add: fence_def fence_sql_def)

text \<open>
  C5, as the code has it. An input that, once trimmed, is an opening marker (three
  backticks, with or without the tag \<open>sql\<close>), an enclosed text and a closing marker comes
  back as the enclosed text, trimmed, provided the enclosed text has no triple backtick
  of its own, does not start with \<open>sql\<close> when the opening marker has no tag, and, once
  trimmed, has no line feed immediately followed by a keyword.
\<close>

theorem clean_sql_output_fenced:
  assumes "strip s = opening @ body @ fence"
    and "opening = fence_sql \<or> (opening = fence \<and> \<not> prefix ''sql'' body)"
    and "\<not> sublist fence body"
    and "\<not> has_boundary (strip body)"
  shows "clean_sql_output s = Inr (strip body)"
proof -
  have "re_sub_fences (opening @ body @ fence) = re_sub_fences (body @ fence)"
    using assms(2) not_prefix_sql_fence[of body]
    by (auto simp: re_sub_fences_opening_sql re_sub_fences_opening)
  also have "\<dots> = body"
    using assms(3) by (rule re_sub_fences_closing)
  finally have 1: "re_sub_fences (strip s) = body"
    by (simp add: assms(1))
  from assms(4) have 2: "search_boundary (strip body) = None"
    by (simp add: search_boundary_None)
  show ?thesis
    by (simp add: clean_sql_output_eq 1 re_split_boundary_last 2 strip_idem)
qed

theorem clean_sql_output_fenced_witness:
  "strip (''```sql'' @ NL # ''SELECT name FROM t;'' @ NL # ''```'')
     = fence_sql @ (NL # ''SELECT name FROM t;'' @ [NL]) @ fence
   \<and> \<not> sublist fence (NL # ''SELECT name FROM t;'' @ [NL])
   \<and> \<not> has_boundary (strip (NL # ''SELECT name FROM t;'' @ [NL]))
   \<and> clean_sql_output (''```sql'' @ NL # ''SELECT name FROM t;'' @ NL # ''```'')
       = Inr ''SELECT name FROM t;''
   \<and> clean_sql_output ('' ```'' @ NL # ''SELECT name FROM t;'' @ NL # ''``` '')
       = Inr ''SELECT name FROM t;''"
  using clean_sql_output_fenced[of "''```sql'' @ NL # ''SELECT name FROM t;'' @ NL # ''```''"
      fence_sql "NL # ''SELECT name FROM t;'' @ [NL]"]
    clean_sql_output_fenced[of "'' ```'' @ NL # ''SELECT name FROM t;'' @ NL # ''``` ''"
      fence "NL # ''SELECT name FROM t;'' @ [NL]"]
  by (simp add: strip_def is_space_def fence_def fence_sql_def NL_def lookahead_keyword_def
      sql_keywords_def sublist_Cons_right)

text \<open>
  C5 as stated fails: when the enclosed text has a second keyword-initial line, the split
  cuts the enclosed text and only its tail comes back.
\<close>

theorem clean_sql_output_fenced_counterexample:
  "strip (NL # ''SELECT 1;'' @ NL # ''SELECT 2;'' @ [NL]) = ''SELECT 1;'' @ NL # ''SELECT 2;''
   \<and> clean_sql_output (''```sql'' @ NL # ''SELECT 1;'' @ NL # ''SELECT 2;'' @ NL # ''```'')
       = Inr ''SELECT 2;''
   \<and> clean_sql_output (''```sql'' @ NL # ''SELECT 1;'' @ NL # ''SELECT 2;'' @ NL # ''```'')
       \<noteq> Inr (strip (NL # ''SELECT 1;'' @ NL # ''SELECT 2;'' @ [NL]))"
  by (simp add: clean_sql_output_eq strip_def is_space_def fence_def fence_sql_def
      re_split_boundary_last NL_def lookahead_keyword_def sql_keywords_def)

subsection \<open>The correction table\<close>

lemma py_replace_Nil: "old \<noteq> [] \<Longrightarrow> py_replace old new [] = []"
  by simp

lemma py_replace_match:
  assumes "old \<noteq> []"
  shows "py_replace old new (old @ post) = new @ py_replace old new post"
proof -
  from assms obtain c cs where "old @ post = c # cs" by (cases old) auto
  with assms show ?thesis
    by (metis append_eq_conv_conj prefixI py_replace.simps(2))
qed

lemma py_replace_skip:
  "old \<noteq> [] \<Longrightarrow> \<not> prefix old (c # cs) \<Longrightarrow>
     py_replace old new (c # cs) = c # py_replace old new cs"
  by simp

lemma py_replace_unchanged:
  assumes "old \<noteq> []" "\<not> sublist old s"
  shows "py_replace old new s = s"
  using assms(2)
proof (induction s)
  case Nil
  with assms(1) show ?case by simp
next
  case (Cons c cs)
  then have "\<not> prefix old (c # cs)" "\<not> sublist old cs"
    by (auto simp: sublist_Cons_right)
  with Cons.IH assms(1) show ?case by (simp add: py_replace_skip del: py_replace.simps)
qed

lemma no_start_inD:
  assumes "no_start_in k m" "suffix z m" "z \<noteq> []"
  shows "\<not> prefix k (z @ post)"
proof
  assume p: "prefix k (z @ post)"
  from assms have n: "\<not> prefix k z" "\<not> prefix z k"
    by (auto simp: no_start_in_def list_all_iff)
  from p n(1) obtain us where "k = z @ us" by (auto simp: prefix_append)
  with n(2) show False by simp
qed

lemma py_replace_inside:
  assumes "k \<noteq> []" "no_start_in k m" "suffix z m"
  shows "py_replace k v (z @ post) = z @ py_replace k v post"
  using assms(3)
proof (induction z)
  case Nil
  show ?case by simp
next
  case (Cons c z)
  from Cons.prems have "suffix z m" by (rule suffix_ConsD)
  with Cons.IH have IH: "py_replace k v (z @ post) = z @ py_replace k v post" .
  have "\<not> prefix k ((c # z) @ post)"
    using assms(2) Cons.prems by (rule no_start_inD) simp
  then have "py_replace k v (c # (z @ post)) = c # py_replace k v (z @ post)"
    using assms(1) by (simp add: py_replace_skip del: py_replace.simps)
  with IH show ?case by simp
qed

lemma no_straddleD:
  assumes "no_straddle k m" "pre \<noteq> []" "\<not> prefix k pre"
  shows "\<not> prefix k (pre @ m @ post)"
proof
  assume "prefix k (pre @ m @ post)"
  with assms(3) obtain us where us: "k = pre @ us" "prefix us (m @ post)"
    by (auto simp: prefix_append)
  from us(1) assms(3) have 1: "us \<noteq> []" by auto
  from us(1) assms(2) have 2: "us \<noteq> k" by auto
  from us(1) have "suffix us k" by (simp add: suffix_def)
  with assms(1) 1 2 have n: "\<not> prefix us m" "\<not> prefix m us"
    by (auto simp: no_straddle_def list_all_iff)
  from us(2) n(1) obtain w where "us = m @ w" by (auto simp: prefix_append)
  with n(2) show False by simp
qed

lemma py_replace_before:
  assumes "k \<noteq> []" "no_straddle k m"
  shows "py_replace k v (pre @ m @ post) = py_replace k v pre @ py_replace k v (m @ post)"
proof (induction pre rule: length_induct)
  case (1 pre)
  show ?case
  proof (cases pre)
    case Nil
    with assms(1) show ?thesis by simp
  next
    case (Cons c cs)
    show ?thesis
    proof (cases "prefix k pre")
      case True
      then obtain r where r: "pre = k @ r" by (auto simp: prefix_def)
      with assms(1) have "length r < length pre" by simp
      with 1 have "py_replace k v (r @ m @ post) = py_replace k v r @ py_replace k v (m @ post)"
        by blast
      with assms(1) show ?thesis
        using py_replace_match[of k v "r @ m @ post"] py_replace_match[of k v r]
        by (simp add: r)
    next
      case False
      with assms(2) Cons have "\<not> prefix k (pre @ m @ post)"
        by (intro no_straddleD) auto
      with False assms(1) have
        "py_replace k v (c # (cs @ m @ post)) = c # py_replace k v (cs @ m @ post)"
        "py_replace k v (c # cs) = c # py_replace k v cs"
        by (simp_all add: Cons py_replace_skip del: py_replace.simps)
      moreover have "py_replace k v (cs @ m @ post) = py_replace k v cs @ py_replace k v (m @ post)"
        using 1 Cons by simp
      ultimately show ?thesis by (simp add: Cons)
    qed
  qed
qed

lemma py_replace_through:
  assumes "k \<noteq> []" "no_straddle k m" "no_start_in k m"
  shows "py_replace k v (pre @ m @ post) = py_replace k v pre @ m @ py_replace k v post"
  using py_replace_before[OF assms(1,2)] py_replace_inside[OF assms(1,3) suffix_order.order_refl]
  by simp

lemma py_replace_hit:
  assumes "k \<noteq> []" "no_straddle k k"
  shows "py_replace k v (pre @ k @ post) = py_replace k v pre @ v @ py_replace k v post"
  using py_replace_before[OF assms] py_replace_match[OF assms(1)]
  by simp

lemma replace_all_track:
  "track cs m = Some m' \<Longrightarrow>
     replace_all cs (pre @ m @ post) = replace_all cs pre @ m' @ replace_all cs post"
proof (induction cs arbitrary: pre post m)
  case Nil
  then show ?case by (simp add: replace_all_def)
next
  case (Cons kv cs)
  obtain k v where kv: "kv = (k, v)" by (cases kv)
  have step: "replace_all (kv # cs) s = replace_all cs (py_replace k v s)" for s
    by (simp add: replace_all_def kv)
  from Cons.prems kv have k: "k \<noteq> []" by (auto split: if_splits)
  show ?case
  proof (cases "m = k \<and> no_straddle k k")
    case True
    with Cons.prems kv k have "track cs v = Some m'" by simp
    from Cons.IH[OF this] True k show ?thesis
      by (simp add: step py_replace_hit)
  next
    case False
    with Cons.prems kv k have t: "no_straddle k m" "no_start_in k m" "track cs m = Some m'"
      by (auto split: if_splits)
    from Cons.IH[OF t(3)] t(1,2) k show ?thesis
      by (simp add: step py_replace_through)
  qed
qed

lemma replace_all_unchanged:
  "list_all (\<lambda>(k, v). k \<noteq> [] \<and> \<not> sublist k s) cs \<Longrightarrow> replace_all cs s = s"
  by (induction cs) (auto simp: replace_all_def py_replace_unchanged)

lemma correct_replace_all: "correct_common_sql_errors s = replace_all corrections s"
  by (simp add: correct_common_sql_errors_def replace_all_def)

lemma track_corrections: "list_all (\<lambda>(k, v). track corrections k = Some v) corrections"
  by (simp add: corrections_def no_straddle_def no_start_in_def)

lemma corrections_keys: "list_all (\<lambda>(k, v). k \<noteq> []) corrections"
  by (simp add: corrections_def)

lemma correct_example_before:
  "correct_common_sql_errors ''SELECT * FROM t WHERE '' = ''SELECT * FROM t WHERE ''"
  by (simp add: correct_common_sql_errors_def corrections_def)

lemma correct_example_after:
  "correct_common_sql_errors '' = 7 AND NOT customer_id = 9''
     = '' = 7 AND NOT customerNumber = 9''"
  by (simp add: correct_common_sql_errors_def corrections_def)

text \<open>
  C4. Wherever a key of the table stands in the input, the output has its value there,
  and the text before and the text after are corrected on their own; so every
  occurrence of every key is replaced (every \<open>customer_id\<close> becomes \<open>customerNumber\<close>).
  An input in which no key occurs is returned unchanged.
\<close>

theorem correct_common_sql_errors_replaces:
  "((k, v) \<in> set corrections \<longrightarrow>
      correct_common_sql_errors (pre @ k @ post)
        = correct_common_sql_errors pre @ v @ correct_common_sql_errors post)
   \<and> ((\<forall>(k, v) \<in> set corrections. \<not> sublist k s) \<longrightarrow> correct_common_sql_errors s = s)"
proof (intro conjI impI)
  assume "(k, v) \<in> set corrections"
  with track_corrections have "track corrections k = Some v"
    by (auto simp: list_all_iff)
  then show "correct_common_sql_errors (pre @ k @ post)
        = correct_common_sql_errors pre @ v @ correct_common_sql_errors post"
    unfolding correct_replace_all by (rule replace_all_track)
next
  assume "\<forall>(k, v) \<in> set corrections. \<not> sublist k s"
  with corrections_keys have "list_all (\<lambda>(k, v). k \<noteq> [] \<and> \<not> sublist k s) corrections"
    by (auto simp: list_all_iff)
  then show "correct_common_sql_errors s = s"
    unfolding correct_replace_all by (rule replace_all_unchanged)
qed

theorem correct_common_sql_errors_replaces_witness:
  "(''customer_id'', ''customerNumber'') \<in> set corrections
   \<and> correct_common_sql_errors (''SELECT * FROM t WHERE '' @ ''customer_id'' @ '' = 7 AND NOT customer_id = 9'')
       = ''SELECT * FROM t WHERE customerNumber = 7 AND NOT customerNumber = 9''
   \<and> list_all (\<lambda>(k, v). \<not> sublist k ''SELECT 1'') corrections
   \<and> correct_common_sql_errors ''SELECT 1'' = ''SELECT 1''"
  using correct_common_sql_errors_replaces[of "''customer_id''" "''customerNumber''"
      "''SELECT * FROM t WHERE ''" "'' = 7 AND NOT customer_id = 9''" "''SELECT 1''"]
  by (simp add: correct_example_before correct_example_after corrections_def sublist_Cons_right)

subsection \<open>Query execution\<close>

lemma print_eq:
  "print env text w =
     (print_result env (length (stdout w)) text, w\<lparr>stdout := stdout w @ [text]\<rparr>)"
  by (simp add: print_def)

lemma execute_query_frame:
  "store (snd (execute_query env query w)) = store w"
  "histories (snd (execute_query env query w)) = histories w"
  "rephrased (snd (execute_query env query w)) = rephrased w"
  "next_handle (snd (execute_query env query w)) = next_handle w"
  by (simp_all add: execute_query_def execute_query_try_def print_eq run_db_def
      split: sum.splits option.splits)


lemma execute_query_result:
  assumes "print_result env (length (stdout w)) (NL # ''Executing SQL Query:'' @ NL # query) = None"
  shows "fst (execute_query env query w) =
     (case db_run env (length (executed w)) query of
        Inr result \<Rightarrow> Inr (if result \<noteq> [] then PyStr result
                            else PyDict [(''info'', ''No results found.'')])
      | Inl e \<Rightarrow>
          if is_PyException e then
            (case print_result env (Suc (length (stdout w)))
                    (NL # ''SQL Execution Error: '' @ message e) of
               None \<Rightarrow> Inr (PyDict [(''error'', ''Query failed: '' @ message e)])
             | Some e' \<Rightarrow> Inl e')
          else Inl e)"
  using assms
  by (simp add: execute_query_def execute_query_try_def print_eq run_db_def
      split: sum.splits option.splits)

text \<open>
  C2, as the code has it. When the announcing print returns: an exception of the
  database run that is an instance of \<open>Exception\<close> becomes the error record with its
  message (the print in the handler returning); a non-empty result of the run is
  returned as it is; an empty one becomes the no-rows marker. An exception of the run
  that is not an instance of \<open>Exception\<close> is not caught: it is raised outward.
\<close>

theorem execute_query_catches_Exception:
  assumes "print_result env (length (stdout w)) (NL # ''Executing SQL Query:'' @ NL # query) = None"
  shows "(\<forall>e. db_run env (length (executed w)) query = Inl e \<and> is_PyException e
              \<and> print_result env (Suc (length (stdout w)))
                   (NL # ''SQL Execution Error: '' @ message e) = None \<longrightarrow>
            fst (execute_query env query w)
              = Inr (PyDict [(''error'', ''Query failed: '' @ message e)]))
       \<and> (\<forall>e. db_run env (length (executed w)) query = Inl e \<and> \<not> is_PyException e \<longrightarrow>
            fst (execute_query env query w) = Inl e)
       \<and> (\<forall>result. db_run env (length (executed w)) query = Inr result \<and> result \<noteq> [] \<longrightarrow>
            fst (execute_query env query w) = Inr (PyStr result))
       \<and> (db_run env (length (executed w)) query = Inr [] \<longrightarrow>
            fst (execute_query env query w) = Inr (PyDict [(''info'', ''No results found.'')]))"
proof (intro conjI allI impI)
  fix e
  assume "db_run env (length (executed w)) query = Inl e \<and> is_PyException e
              \<and> print_result env (Suc (length (stdout w)))
                   (NL # ''SQL Execution Error: '' @ message e) = None"
  then show "fst (execute_query env query w)
              = Inr (PyDict [(''error'', ''Query failed: '' @ message e)])"
    by (simp add: execute_query_result[OF assms])
next
  fix e
  assume "db_run env (length (executed w)) query = Inl e \<and> \<not> is_PyException e"
  then show "fst (execute_query env query w) = Inl e"
    by (simp add: execute_query_result[OF assms])
next
  fix result
  assume "db_run env (length (executed w)) query = Inr result \<and> result \<noteq> []"
  then show "fst (execute_query env query w) = Inr (PyStr result)"
    by (simp add: execute_query_result[OF assms])
next
  assume "db_run env (length (executed w)) query = Inr []"
  then show "fst (execute_query env query w) = Inr (PyDict [(''info'', ''No results found.'')])"
    by (simp add: execute_query_result[OF assms])
qed

theorem execute_query_catches_Exception_witness:
  "fst (execute_query example_env ''SELEC 1'' initial_world)
       = Inr (PyDict [(''error'', ''Query failed: (1146) table does not exist'')])
   \<and> fst (execute_query example_env ''SELECT customerNumber FROM customers'' initial_world)
       = Inr (PyStr ''[(103,), (112,)]'')
   \<and> fst (execute_query example_env ''SELECT customerNumber FROM customers WHERE 0'' initial_world)
       = Inr (PyDict [(''info'', ''No results found.'')])
   \<and> fst (execute_query interrupted_env ''SELECT 1'' initial_world)
       = Inl (PyBaseException ''KeyboardInterrupt'')"
proof -
  have p: "print_result example_env n s = None" "print_result interrupted_env n s = None"
    for n s
    by (simp_all add: example_env_def interrupted_env_def)
  have r: "db_run example_env n ''SELEC 1'' = Inl (PyException ''(1146) table does not exist'')"
    "db_run example_env n ''SELECT customerNumber FROM customers'' = Inr ''[(103,), (112,)]''"
    "db_run example_env n ''SELECT customerNumber FROM customers WHERE 0'' = Inr []"
    "db_run interrupted_env n ''SELECT 1'' = Inl (PyBaseException ''KeyboardInterrupt'')"
    for n
    by (simp_all add: example_env_def interrupted_env_def)
  note t1 = execute_query_catches_Exception[OF p(1),
      of "initial_world :: string world" "''SELEC 1''"]
  note t2 = execute_query_catches_Exception[OF p(1),
      of "initial_world :: string world" "''SELECT customerNumber FROM customers''"]
  note t3 = execute_query_catches_Exception[OF p(1),
      of "initial_world :: string world" "''SELECT customerNumber FROM customers WHERE 0''"]
  note t4 = execute_query_catches_Exception[OF p(2),
      of "initial_world :: string world" "''SELECT 1''"]
  have 1: "fst (execute_query example_env ''SELEC 1'' initial_world)
       = Inr (PyDict [(''error'', ''Query failed: (1146) table does not exist'')])"
    using t1[THEN conjunct1, rule_format, OF conjI[OF r(1) conjI[OF _ p(1)]]] by simp
  have 2: "fst (execute_query example_env ''SELECT customerNumber FROM customers'' initial_world)
       = Inr (PyStr ''[(103,), (112,)]'')"
    using t2[THEN conjunct2, THEN conjunct2, THEN conjunct1, rule_format, OF conjI[OF r(2)]]
    by simp
  have 3: "fst (execute_query example_env ''SELECT customerNumber FROM customers WHERE 0''
        initial_world) = Inr (PyDict [(''info'', ''No results found.'')])"
    by (rule t3[THEN conjunct2, THEN conjunct2, THEN conjunct2, rule_format, OF r(3)])
  have 4: "fst (execute_query interrupted_env ''SELECT 1'' initial_world)
       = Inl (PyBaseException ''KeyboardInterrupt'')"
    using t4[THEN conjunct2, THEN conjunct1, rule_format, OF conjI[OF r(4)]] by simp
  show ?thesis
    by (rule conjI[OF 1 conjI[OF 2 conjI[OF 3 4]]])
qed

text \<open>
  C2 as stated fails: an interrupt from the keyboard during the database run is an
  exception that \<open>execute_query\<close> raises outward, with no error record.
\<close>

theorem execute_query_never_raises_counterexample:
  "db_run interrupted_env (length (executed (initial_world :: string world))) ''SELECT 1''
     = Inl (PyBaseException ''KeyboardInterrupt'')
   \<and> fst (execute_query interrupted_env ''SELECT 1'' initial_world)
       = Inl (PyBaseException ''KeyboardInterrupt'')
   \<and> fst (execute_query interrupted_env ''SELECT 1'' initial_world)
       \<noteq> Inr (PyDict [(''error'', ''Query failed: KeyboardInterrupt'')])"
  by (simp add: execute_query_def execute_query_try_def print_eq run_db_def
      interrupted_env_def example_env_def initial_world_def)

subsection \<open>Session memory and the schema cache\<close>

lemma get_memory_new:
  assumes "store w k = None"
  shows "get_memory k w =
     (next_handle w, w\<lparr>store := (store w)(k \<mapsto> next_handle w),
                       histories := (histories w)(next_handle w \<mapsto> []),
                       next_handle := Suc (next_handle w)\<rparr>)"
  using assms by (simp add: get_memory_def Let_def)

lemma get_memory_old: "store w k = Some h \<Longrightarrow> get_memory k w = (h, w)"
  by (simp add: get_memory_def)

lemma get_memory_store:
  "get_memory k w = (h, w') \<Longrightarrow> store w' k = Some h"
  by (cases "store w k") (auto simp: get_memory_new get_memory_old)

lemma store_add_messages [simp]: "store (add_messages h ms w) = store w"
  by (simp add: add_messages_def)

lemma messages_add_messages:
  "messages (add_messages h ms w) h' = (if h' = h then messages w h @ ms else messages w h')"
  by (simp add: add_messages_def messages_def)

lemma wf_world_cong:
  "store w' = store w \<Longrightarrow> next_handle w' = next_handle w \<Longrightarrow> wf_world w' = wf_world w"
  by (simp add: wf_world_def)

lemma wf_world_initial: "wf_world initial_world"
  by (simp add: wf_world_def initial_world_def)

lemma get_memory_other:
  assumes "get_memory k w = (h, w1)" "wf_world w" "k' \<noteq> k"
  shows "session_messages w1 k' = session_messages w k'" "store w1 k' \<noteq> Some h"
proof -
  show "session_messages w1 k' = session_messages w k'"
  proof (cases "store w k")
    case None
    with assms(1) have w1: "w1 = w\<lparr>store := (store w)(k \<mapsto> next_handle w),
        histories := (histories w)(next_handle w \<mapsto> []), next_handle := Suc (next_handle w)\<rparr>"
      by (auto simp: get_memory_new)
    show ?thesis
    proof (cases "store w k'")
      case None
      with assms(3) show ?thesis by (simp add: w1 session_messages_def)
    next
      case (Some h')
      with assms(2) have "h' \<noteq> next_handle w" by (auto simp: wf_world_def)
      with Some assms(3) show ?thesis by (simp add: w1 session_messages_def messages_def)
    qed
  next
    case (Some a)
    with assms(1) show ?thesis by (simp add: get_memory_old)
  qed
  show "store w1 k' \<noteq> Some h"
  proof (cases "store w k")
    case None
    with assms(1) have "h = next_handle w" "store w1 k' = store w k'"
      using assms(3) by (auto simp: get_memory_new)
    with assms(2) show ?thesis by (auto simp: wf_world_def)
  next
    case (Some a)
    with assms(1) have "h = a" "w1 = w" by (auto simp: get_memory_old)
    with Some assms(2,3) show ?thesis by (auto simp: wf_world_def)
  qed
qed

lemma get_memory_wf:
  assumes "get_memory k w = (h, w1)" "wf_world w"
  shows "wf_world w1"
proof (cases "store w k")
  case None
  with assms(1) have w1: "w1 = w\<lparr>store := (store w)(k \<mapsto> next_handle w),
      histories := (histories w)(next_handle w \<mapsto> []), next_handle := Suc (next_handle w)\<rparr>"
    by (auto simp: get_memory_new)
  from assms(2) have a: "\<And>k' h'. store w k' = Some h' \<Longrightarrow> h' < next_handle w"
    and b: "\<And>k' k'' h'. store w k' = Some h' \<Longrightarrow> store w k'' = Some h' \<Longrightarrow> k' = k''"
    by (auto simp: wf_world_def)
  show ?thesis
    unfolding wf_world_def w1
    using a b by (fastforce simp: less_Suc_eq split: if_splits)
next
  case (Some a)
  with assms show ?thesis by (simp add: get_memory_old)
qed

lemma wf_example_world: "wf_world example_world"
proof -
  obtain h w1 where g: "get_memory ''a'' (initial_world :: string world) = (h, w1)"
    by (cases "get_memory ''a'' (initial_world :: string world)")
  from g wf_world_initial have "wf_world w1" by (rule get_memory_wf)
  moreover have "wf_world (add_messages 0 [HumanMessage ''hello''] w1) = wf_world w1"
    by (rule wf_world_cong) (simp_all add: add_messages_def)
  ultimately show ?thesis using g by (simp add: example_world_def)
qed

text \<open>
  C6. For a key without a session, \<open>get_memory\<close> creates an empty transcript, stores it
  under the key and returns it: the other keys keep their entries, and in a well-formed
  store the handle is one that no key had, every other session keeps its transcript,
  and the store stays well formed. For a key with a session it returns the stored
  handle and changes nothing. Two calls with one key return the same handle, so
  messages appended through the handle of the first call are read through the handle
  of the second, and a later lookup still returns that handle.
\<close>

theorem get_memory_shared:
  "(store w k = None \<longrightarrow>
      (\<exists>h w'. get_memory k w = (h, w') \<and> store w' k = Some h \<and> messages w' h = []
         \<and> (\<forall>k'. k' \<noteq> k \<longrightarrow> store w' k' = store w k')
         \<and> (wf_world w \<longrightarrow>
               (\<forall>k'. store w k' \<noteq> Some h)
             \<and> (\<forall>k'. k' \<noteq> k \<longrightarrow> session_messages w' k' = session_messages w k')
             \<and> wf_world w')))
   \<and> (\<forall>h. store w k = Some h \<longrightarrow> get_memory k w = (h, w))
   \<and> (\<forall>h1 w1 h2 w2. get_memory k w = (h1, w1) \<and> get_memory k w1 = (h2, w2) \<longrightarrow>
          h2 = h1 \<and> w2 = w1 \<and>
          messages (add_messages h1 ms w2) h2 = messages w2 h2 @ ms \<and>
          get_memory k (add_messages h1 ms w2) = (h1, add_messages h1 ms w2))"
proof (intro conjI allI impI)
  assume n: "store w k = None"
  obtain h w' where g: "get_memory k w = (h, w')" by (cases "get_memory k w")
  from n g have h: "h = next_handle w"
    and w': "w' = w\<lparr>store := (store w)(k \<mapsto> next_handle w),
        histories := (histories w)(next_handle w \<mapsto> []), next_handle := Suc (next_handle w)\<rparr>"
    by (auto simp: get_memory_new)
  have 1: "store w' k = Some h" using g by (rule get_memory_store)
  have 2: "messages w' h = []" by (simp add: h w' messages_def)
  have 3: "\<forall>k'. k' \<noteq> k \<longrightarrow> store w' k' = store w k'" by (simp add: w')
  have 4: "(\<forall>k'. store w k' \<noteq> Some h)
      \<and> (\<forall>k'. k' \<noteq> k \<longrightarrow> session_messages w' k' = session_messages w k')
      \<and> wf_world w'" if wf: "wf_world w"
  proof (intro conjI allI impI)
    fix k'
    show "store w k' \<noteq> Some h" using wf h by (auto simp: wf_world_def)
  next
    fix k' assume "k' \<noteq> k"
    with g wf show "session_messages w' k' = session_messages w k'"
      by (rule get_memory_other(1))
  next
    from g wf show "wf_world w'" by (rule get_memory_wf)
  qed
  from g 1 2 3 4 show "\<exists>h w'. get_memory k w = (h, w') \<and> store w' k = Some h \<and> messages w' h = []
         \<and> (\<forall>k'. k' \<noteq> k \<longrightarrow> store w' k' = store w k')
         \<and> (wf_world w \<longrightarrow>
               (\<forall>k'. store w k' \<noteq> Some h)
             \<and> (\<forall>k'. k' \<noteq> k \<longrightarrow> session_messages w' k' = session_messages w k')
             \<and> wf_world w')"
    by blast
next
  fix h assume "store w k = Some h"
  then show "get_memory k w = (h, w)" by (rule get_memory_old)
next
  fix h1 w1 h2 w2
  assume a: "get_memory k w = (h1, w1) \<and> get_memory k w1 = (h2, w2)"
  then have s: "store w1 k = Some h1" by (auto dest: get_memory_store)
  with a have e: "h2 = h1" "w2 = w1" by (auto simp: get_memory_old)
  then show "h2 = h1" "w2 = w1" by simp_all
  from e show "messages (add_messages h1 ms w2) h2 = messages w2 h2 @ ms"
    by (simp add: messages_add_messages)
  from s e show "get_memory k (add_messages h1 ms w2) = (h1, add_messages h1 ms w2)"
    by (simp add: get_memory_old)
qed

lemma example_world_eq:
  "example_world =
     \<lparr>store = [''a'' \<mapsto> 0], histories = [0 \<mapsto> [HumanMessage ''hello'']], next_handle = 1,
      schema_cache = None, introspections = 0, executed = [], rephrased = [], stdout = []\<rparr>"
  by (simp add: example_world_def get_memory_def initial_world_def add_messages_def
      messages_def Let_def)

theorem get_memory_shared_witness:
  "store example_world ''b'' = None
   \<and> fst (get_memory ''b'' example_world) = 1
   \<and> session_messages (snd (get_memory ''b'' example_world)) ''b'' = []
   \<and> session_messages (snd (get_memory ''b'' example_world)) ''a'' = [HumanMessage ''hello'']
   \<and> store example_world ''a'' = Some 0
   \<and> get_memory ''a'' example_world = (0, example_world)
   \<and> messages (add_messages 0 [AIMessage ''SELECT 1''] example_world) 0
       = [HumanMessage ''hello'', AIMessage ''SELECT 1'']"
proof -
  note t = get_memory_shared[of example_world "''b''" "[]"]
  note u = get_memory_shared[of example_world "''a''" "[AIMessage ''SELECT 1'']"]
  have n: "store example_world ''b'' = None" by (simp add: example_world_eq)
  from t[THEN conjunct1, rule_format, OF n] obtain h w' where
    g: "get_memory ''b'' example_world = (h, w')"
    and s: "store w' ''b'' = Some h" and m: "messages w' h = []"
    and o: "wf_world example_world \<longrightarrow>
               (\<forall>k'. store example_world k' \<noteq> Some h)
             \<and> (\<forall>k'. k' \<noteq> ''b'' \<longrightarrow> session_messages w' k' = session_messages example_world k')
             \<and> wf_world w'"
    by blast
  from o wf_example_world have
    f: "store example_world ''a'' \<noteq> Some h"
    and k: "session_messages w' ''a'' = session_messages example_world ''a''"
    by simp_all
  have a: "store example_world ''a'' = Some 0" by (simp add: example_world_eq)
  have 1: "fst (get_memory ''b'' example_world) = 1"
    by (simp add: get_memory_new[OF n]) (simp add: example_world_eq)
  have 2: "session_messages (snd (get_memory ''b'' example_world)) ''b'' = []"
    using g s m by (simp add: session_messages_def)
  have 3: "session_messages (snd (get_memory ''b'' example_world)) ''a'' = [HumanMessage ''hello'']"
    using g k by (simp add: session_messages_def messages_def example_world_eq)
  have 4: "get_memory ''a'' example_world = (0, example_world)"
    by (rule u[THEN conjunct2, THEN conjunct1, rule_format, OF a])
  have 5: "messages (add_messages 0 [AIMessage ''SELECT 1''] example_world) 0
       = [HumanMessage ''hello'', AIMessage ''SELECT 1'']"
    using u[THEN conjunct2, THEN conjunct2, rule_format, OF conjI[OF 4 4]]
    by (simp add: messages_def example_world_eq)
  show ?thesis
    by (rule conjI[OF n conjI[OF 1 conjI[OF 2 conjI[OF 3 conjI[OF a conjI[OF 4 5]]]]]])
qed

lemma get_schema_description_cached_state:
  "schema_cache w = Some v \<Longrightarrow> get_schema_description env w = (Inr v, w)"
  by (simp add: get_schema_description_def)

lemma schema_calls_cached:
  "schema_cache w = Some v \<Longrightarrow> schema_calls env n w = (replicate n (Inr v), w)"
  by (induction n) (simp_all add: get_schema_description_cached_state)

lemma schema_calls_count:
  assumes "schema_cache w = None" and "schema_calls env n w = (rs, w')"
  shows "introspections w' =
           introspections w + length (filter isl rs) + (if \<exists>r \<in> set rs. \<not> isl r then 1 else 0)
         \<and> (\<forall>r \<in> set rs. \<forall>r' \<in> set rs. \<not> isl r \<and> \<not> isl r' \<longrightarrow> r' = r)"
  using assms
proof (induction n arbitrary: w rs w')
  case 0
  then show ?case by simp
next
  case (Suc n)
  show ?case
  proof (cases "table_info env (introspections w)")
    case (Inl e)
    let ?w1 = "w\<lparr>introspections := Suc (introspections w)\<rparr>"
    from Inl Suc.prems(1) have g: "get_schema_description env w = (Inl e, ?w1)"
      by (simp add: get_schema_description_def)
    obtain rs1 where rs1: "schema_calls env n ?w1 = (rs1, w')" "rs = Inl e # rs1"
      using Suc.prems(2) g by (auto split: prod.splits)
    have "schema_cache ?w1 = None" using Suc.prems(1) by simp
    from Suc.IH[OF this rs1(1)] rs1(2) show ?thesis by auto
  next
    case (Inr v)
    let ?w1 = "w\<lparr>introspections := Suc (introspections w), schema_cache := Some v\<rparr>"
    from Inr Suc.prems(1) have g: "get_schema_description env w = (Inr v, ?w1)"
      by (simp add: get_schema_description_def)
    have "schema_calls env n ?w1 = (replicate n (Inr v), ?w1)"
      by (rule schema_calls_cached) simp
    with Suc.prems(2) g have "rs = Inr v # replicate n (Inr v)" "w' = ?w1"
      by auto
    then show ?thesis by auto
  qed
qed

lemma schema_calls_after_success:
  assumes "schema_cache w = None" and "schema_calls env n w = (rs, w')"
  shows "\<forall>i j. i < j \<and> j < length rs \<and> \<not> isl (rs ! i) \<longrightarrow> rs ! j = rs ! i"
  using assms
proof (induction n arbitrary: w rs w')
  case 0
  then show ?case by simp
next
  case (Suc n)
  show ?case
  proof (cases "table_info env (introspections w)")
    case (Inl e)
    let ?w1 = "w\<lparr>introspections := Suc (introspections w)\<rparr>"
    from Inl Suc.prems(1) have g: "get_schema_description env w = (Inl e, ?w1)"
      by (simp add: get_schema_description_def)
    obtain rs1 where rs1: "schema_calls env n ?w1 = (rs1, w')" "rs = Inl e # rs1"
      using Suc.prems(2) g by (auto split: prod.splits)
    have "schema_cache ?w1 = None" using Suc.prems(1) by simp
    from Suc.IH[OF this rs1(1)]
    have IH: "\<And>i j. i < j \<Longrightarrow> j < length rs1 \<Longrightarrow> \<not> isl (rs1 ! i) \<Longrightarrow> rs1 ! j = rs1 ! i"
      by blast
    show ?thesis
    proof (intro allI impI)
      fix i j assume a: "i < j \<and> j < length rs \<and> \<not> isl (rs ! i)"
      then obtain i' where i': "i = Suc i'" using rs1(2) by (cases i) auto
      from a obtain j' where j': "j = Suc j'" by (cases j) auto
      from a i' j' rs1(2) have "i' < j'" "j' < length rs1" "\<not> isl (rs1 ! i')" by auto
      then have "rs1 ! j' = rs1 ! i'" by (rule IH)
      then show "rs ! j = rs ! i" by (simp add: i' j' rs1(2))
    qed
  next
    case (Inr v)
    let ?w1 = "w\<lparr>introspections := Suc (introspections w), schema_cache := Some v\<rparr>"
    from Inr Suc.prems(1) have g: "get_schema_description env w = (Inr v, ?w1)"
      by (simp add: get_schema_description_def)
    have "schema_calls env n ?w1 = (replicate n (Inr v), ?w1)"
      by (rule schema_calls_cached) simp
    with Suc.prems(2) g have "rs = replicate (Suc n) (Inr v)"
      by auto
    then have "rs ! i = Inr v" if "i < length rs" for i
      using that by (simp del: replicate_Suc)
    then show ?thesis by auto
  qed
qed

text \<open>
  C7, as the code has it. From a process start (nothing cached), over any number of
  calls: every call that raises has issued an introspection call of its own, since a
  failure caches nothing; at most one further introspection call is issued, the one of
  the first call that succeeds; all calls that return, return the same value; and
  every call after one that has returned, returns that value too. So at most one
  introspection call succeeds, and none is issued after it.
\<close>

theorem get_schema_description_once:
  assumes "schema_cache w = None" and "schema_calls env n w = (rs, w')"
  shows "introspections w' =
           introspections w + length (filter isl rs) + (if \<exists>r \<in> set rs. \<not> isl r then 1 else 0)
         \<and> (\<forall>r \<in> set rs. \<forall>r' \<in> set rs. \<not> isl r \<and> \<not> isl r' \<longrightarrow> r' = r)
         \<and> (\<forall>i j. i < j \<and> j < length rs \<and> \<not> isl (rs ! i) \<longrightarrow> rs ! j = rs ! i)"
  using schema_calls_count[OF assms] schema_calls_after_success[OF assms]
  by (intro conjI) (erule conjunct1, erule conjunct2, assumption)

theorem get_schema_description_once_witness:
  "schema_cache (initial_world :: string world) = None
   \<and> fst (schema_calls flaky_env 3 initial_world)
       = [Inl (PyException ''connection refused''), Inr ''customers(customerNumber)'',
          Inr ''customers(customerNumber)'']
   \<and> introspections (snd (schema_calls flaky_env 3 initial_world)) = 2"
  using get_schema_description_once[of "initial_world :: string world" flaky_env 3
      "fst (schema_calls flaky_env 3 initial_world)" "snd (schema_calls flaky_env 3 initial_world)"]
  by (simp add: numeral_3_eq_3 get_schema_description_def flaky_env_def example_env_def initial_world_def)

text \<open>
  C7 as stated fails: when the first introspection call raises, the second call of
  \<open>get_schema_description\<close> issues another one.
\<close>

theorem get_schema_description_once_counterexample:
  "fst (schema_calls flaky_env 2 initial_world)
       = [Inl (PyException ''connection refused''), Inr ''customers(customerNumber)'']
   \<and> introspections (snd (schema_calls flaky_env 2 initial_world)) = 2
   \<and> \<not> introspections (snd (schema_calls flaky_env 2 initial_world)) \<le> 1"
  by (simp add: numeral_2_eq_2 get_schema_description_def flaky_env_def example_env_def initial_world_def)

subsection \<open>The pipeline\<close>

lemma session_messages_get_memory:
  assumes "get_memory k w = (h, w1)"
  shows "messages w1 h = session_messages w k"
  using assms
  by (cases "store w k") (auto simp: get_memory_new get_memory_old session_messages_def messages_def)


lemma session_messages_add_messages:
  "session_messages (add_messages h ms w) k =
     (if store w k = Some h then session_messages w k @ ms else session_messages w k)"
  by (auto simp: session_messages_def messages_add_messages split: option.splits)


lemma memory_chain_invoke_appends:
  assumes "llm_sql env p (session_messages w k) q = Inr raw"
  shows "session_messages (snd (memory_chain_invoke env p q k w)) k
           = session_messages w k @ [HumanMessage q, AIMessage raw]"
proof -
  obtain h w1 where g: "get_memory k w = (h, w1)" by (cases "get_memory k w")
  then have m: "messages w1 h = session_messages w k" by (rule session_messages_get_memory)
  from g have s: "store w1 k = Some h" by (rule get_memory_store)
  then have "session_messages w1 k = messages w1 h" by (simp add: session_messages_def)
  with m have 1: "session_messages w1 k = session_messages w k" by simp
  from assms g m have
    "snd (memory_chain_invoke env p q k w) = add_messages h [HumanMessage q, AIMessage raw] w1"
    by (simp add: memory_chain_invoke_def)
  with s 1 show ?thesis by (simp add: session_messages_add_messages)
qed

lemma memory_chain_invoke_other:
  assumes "wf_world w" "k' \<noteq> k"
  shows "session_messages (snd (memory_chain_invoke env p q k w)) k' = session_messages w k'"
proof -
  obtain h w1 where g: "get_memory k w = (h, w1)" by (cases "get_memory k w")
  from get_memory_other[OF g assms] g show ?thesis
    by (simp add: memory_chain_invoke_def session_messages_add_messages split: sum.splits)
qed

lemma session_messages_cong:
  "store w' = store w \<Longrightarrow> histories w' = histories w \<Longrightarrow>
     session_messages w' k = session_messages w k"
  by (simp add: session_messages_def messages_def split: option.splits)

lemma rephrase_chain_invoke_frame:
  "store (snd (rephrase_chain_invoke env q query r w)) = store w"
  "histories (snd (rephrase_chain_invoke env q query r w)) = histories w"
  "executed (snd (rephrase_chain_invoke env q query r w)) = executed w"
  by (simp_all add: rephrase_chain_invoke_def)

lemma process_question_after_generation:
  assumes "build_sql_prompt env w = (Inr p, w1)"
    and "memory_chain_invoke env p q (case sa of None \<Rightarrow> ''user-1'' | Some s \<Rightarrow> s) w1 = (Inr raw, w2)"
    and "clean_sql_output raw = Inr cleaned"
    and "execute_query env (correct_common_sql_errors cleaned) w2 = (Inr sql_result, w3)"
  shows "process_question env q sa w =
           rephrase_chain_invoke env q (correct_common_sql_errors cleaned)
             (py_str (py_repr env) sql_result) w3"
  using assms by (simp add: process_question_def)

lemma build_sql_prompt_frame:
  assumes "build_sql_prompt env w = (r, w1)"
  shows "store w1 = store w" "histories w1 = histories w" "next_handle w1 = next_handle w"
    "executed w1 = executed w" "rephrased w1 = rephrased w"
  using assms
  by (auto simp: build_sql_prompt_def get_schema_description_def split: option.splits sum.splits)


lemma process_question_prompt_fails:
  assumes "build_sql_prompt env w = (Inl e, w1)"
  shows "process_question env q sa w = (Inl e, w1)"
  using assms by (simp add: process_question_def)

lemma process_question_model_fails:
  assumes "build_sql_prompt env w = (Inr p, w1)"
    and "memory_chain_invoke env p q (case sa of None \<Rightarrow> ''user-1'' | Some s \<Rightarrow> s) w1 = (Inl e, w2)"
  shows "process_question env q sa w = (Inl e, w2)"
  using assms by (simp add: process_question_def)

lemma process_question_query_fails:
  assumes "build_sql_prompt env w = (Inr p, w1)"
    and "memory_chain_invoke env p q (case sa of None \<Rightarrow> ''user-1'' | Some s \<Rightarrow> s) w1 = (Inr raw, w2)"
    and "clean_sql_output raw = Inr cleaned"
    and "execute_query env (correct_common_sql_errors cleaned) w2 = (Inl e, w3)"
  shows "process_question env q sa w = (Inl e, w3)"
  using assms by (simp add: process_question_def)


text \<open>
  Whatever happens after the generation, the store and the heap of transcripts are the
  ones the generation left.
\<close>

lemma process_question_heap:
  assumes "build_sql_prompt env w = (Inr p, w1)"
  shows "store (snd (process_question env q sa w)) =
           store (snd (memory_chain_invoke env p q
             (case sa of None \<Rightarrow> ''user-1'' | Some s \<Rightarrow> s) w1))"
    and "histories (snd (process_question env q sa w)) =
           histories (snd (memory_chain_invoke env p q
             (case sa of None \<Rightarrow> ''user-1'' | Some s \<Rightarrow> s) w1))"
    and "next_handle (snd (process_question env q sa w)) =
           next_handle (snd (memory_chain_invoke env p q
             (case sa of None \<Rightarrow> ''user-1'' | Some s \<Rightarrow> s) w1))"
proof -
  let ?sid = "case sa of None \<Rightarrow> ''user-1'' | Some s \<Rightarrow> s"
  obtain r w2 where m: "memory_chain_invoke env p q ?sid w1 = (r, w2)"
    by (cases "memory_chain_invoke env p q ?sid w1")
  have "store (snd (process_question env q sa w)) = store w2
      \<and> histories (snd (process_question env q sa w)) = histories w2
      \<and> next_handle (snd (process_question env q sa w)) = next_handle w2"
  proof (cases r)
    case (Inl e)
    with m have "memory_chain_invoke env p q ?sid w1 = (Inl e, w2)" by simp
    with assms have "process_question env q sa w = (Inl e, w2)"
      by (rule process_question_model_fails)
    then show ?thesis by simp
  next
    case (Inr raw)
    with m have m': "memory_chain_invoke env p q ?sid w1 = (Inr raw, w2)" by simp
    obtain cleaned where c: "clean_sql_output raw = Inr cleaned"
      by (simp add: clean_sql_output_eq)
    let ?query = "correct_common_sql_errors cleaned"
    obtain v w3 where e: "execute_query env ?query w2 = (v, w3)"
      by (cases "execute_query env ?query w2")
    have w3: "store w3 = store w2" "histories w3 = histories w2" "next_handle w3 = next_handle w2"
      using execute_query_frame(1,2,4)[of env ?query w2] e by simp_all
    show ?thesis
    proof (cases v)
      case (Inl x)
      with e have "execute_query env ?query w2 = (Inl x, w3)" by simp
      with assms m' c have "process_question env q sa w = (Inl x, w3)"
        by (rule process_question_query_fails)
      with w3 show ?thesis by simp
    next
      case (Inr sql_result)
      with e have "execute_query env ?query w2 = (Inr sql_result, w3)" by simp
      with assms m' c have "process_question env q sa w =
           rephrase_chain_invoke env q ?query (py_str (py_repr env) sql_result) w3"
        by (rule process_question_after_generation)
      with w3 show ?thesis by (simp add: rephrase_chain_invoke_def)
    qed
  qed
  with m show "store (snd (process_question env q sa w)) =
           store (snd (memory_chain_invoke env p q ?sid w1))"
    and "histories (snd (process_question env q sa w)) =
           histories (snd (memory_chain_invoke env p q ?sid w1))"
    and "next_handle (snd (process_question env q sa w)) =
           next_handle (snd (memory_chain_invoke env p q ?sid w1))"
    by simp_all
qed

lemma process_question_sessions:
  assumes "build_sql_prompt env w = (Inr p, w1)"
  shows "session_messages (snd (process_question env q sa w)) k =
         session_messages
           (snd (memory_chain_invoke env p q (case sa of None \<Rightarrow> ''user-1'' | Some s \<Rightarrow> s) w1)) k"
  using process_question_heap(1,2)[OF assms] by (rule session_messages_cong)


lemma example_prompt:
  "build_sql_prompt example_env initial_world
     = (Inr (PromptTemplate (sql_prompt_text ''customers(customerNumber)'')),
        initial_world\<lparr>introspections := 1,
          schema_cache := Some ''customers(customerNumber)''\<rparr>)"
  by (simp add: build_sql_prompt_def get_schema_description_def example_env_def initial_world_def)







subsection \<open>Default sessions\<close>

lemma process_question_other_session:
  assumes "wf_world w" "k' \<noteq> (case sa of None \<Rightarrow> ''user-1'' | Some s \<Rightarrow> s)"
  shows "session_messages (snd (process_question env q sa w)) k' = session_messages w k'"
proof -
  obtain r w1 where b: "build_sql_prompt env w = (r, w1)"
    by (cases "build_sql_prompt env w")
  note f = build_sql_prompt_frame[OF b]
  have s1: "session_messages w1 k' = session_messages w k'"
    using f(1,2) by (rule session_messages_cong)
  show ?thesis
  proof (cases r)
    case (Inl e)
    with b have "process_question env q sa w = (Inl e, w1)"
      by (simp add: process_question_prompt_fails)
    with s1 show ?thesis by simp
  next
    case (Inr p)
    with b have b': "build_sql_prompt env w = (Inr p, w1)" by simp
    have "wf_world w1" using assms(1) wf_world_cong[OF f(1) f(3)] by simp
    then have "session_messages
        (snd (memory_chain_invoke env p q (case sa of None \<Rightarrow> ''user-1'' | Some s \<Rightarrow> s) w1)) k'
        = session_messages w1 k'"
      using assms(2) by (rule memory_chain_invoke_other)
    with process_question_sessions[OF b', of q sa k'] s1 show ?thesis by simp
  qed
qed

lemma process_question_own_session:
  assumes "build_sql_prompt env w = (Inr p, w1)"
    and "llm_sql env p (session_messages w (case sa of None \<Rightarrow> ''user-1'' | Some s \<Rightarrow> s)) q
           = Inr raw"
  shows "session_messages (snd (process_question env q sa w))
           (case sa of None \<Rightarrow> ''user-1'' | Some s \<Rightarrow> s)
         = session_messages w (case sa of None \<Rightarrow> ''user-1'' | Some s \<Rightarrow> s)
             @ [HumanMessage q, AIMessage raw]"
proof -
  let ?sid = "case sa of None \<Rightarrow> ''user-1'' | Some s \<Rightarrow> s"
  note f = build_sql_prompt_frame[OF assms(1)]
  have s1: "session_messages w1 ?sid = session_messages w ?sid"
    using f(1,2) by (rule session_messages_cong)
  with assms(2) have "llm_sql env p (session_messages w1 ?sid) q = Inr raw" by simp
  then have "session_messages (snd (memory_chain_invoke env p q ?sid w1)) ?sid
           = session_messages w1 ?sid @ [HumanMessage q, AIMessage raw]"
    by (rule memory_chain_invoke_appends)
  with process_question_sessions[OF assms(1), of q sa ?sid] s1 show ?thesis by simp
qed

lemma AskQuestion_post_world:
  "snd (AskQuestion_post env data w) =
     snd (process_question env (data ''question'')
            (Some (case data ''session_id'' of None \<Rightarrow> ''default-session'' | Some s \<Rightarrow> s)) w)"
  by (simp add: AskQuestion_post_def Let_def split: prod.splits sum.splits)

lemma memory_chain_invoke_wf:
  assumes "wf_world w"
  shows "wf_world (snd (memory_chain_invoke env p q k w))"
proof -
  obtain h w1 where g: "get_memory k w = (h, w1)" by (cases "get_memory k w")
  from g assms have "wf_world w1" by (rule get_memory_wf)
  moreover have "wf_world (add_messages h ms w1) = wf_world w1" for ms
    by (rule wf_world_cong) (simp_all add: add_messages_def)
  ultimately show ?thesis
    using g by (simp add: memory_chain_invoke_def split: sum.splits)
qed

text \<open>Every request keeps the invariant of the session store.\<close>

lemma process_question_wf:
  assumes "wf_world w"
  shows "wf_world (snd (process_question env q sa w))"
proof -
  obtain r w1 where b: "build_sql_prompt env w = (r, w1)"
    by (cases "build_sql_prompt env w")
  note f = build_sql_prompt_frame[OF b]
  have wf1: "wf_world w1" using assms wf_world_cong[OF f(1) f(3)] by simp
  show ?thesis
  proof (cases r)
    case (Inl e)
    with b have "process_question env q sa w = (Inl e, w1)"
      by (simp add: process_question_prompt_fails)
    with wf1 show ?thesis by simp
  next
    case (Inr p)
    with b have b': "build_sql_prompt env w = (Inr p, w1)" by simp
    have "wf_world (snd (process_question env q sa w)) =
        wf_world (snd (memory_chain_invoke env p q
          (case sa of None \<Rightarrow> ''user-1'' | Some s \<Rightarrow> s) w1))"
      using process_question_heap(1,3)[OF b'] by (rule wf_world_cong)
    with memory_chain_invoke_wf[OF wf1] show ?thesis by simp
  qed
qed

text \<open>
  C9. Without a session argument \<open>process_question\<close> is \<open>process_question\<close> with the key
  \<open>user-1\<close>: the model reads the transcript of that session and the exchange is appended
  to it, and the session \<open>default-session\<close> is left alone. The view, when the request
  has no \<open>session_id\<close>, calls \<open>process_question\<close> with the key \<open>default-session\<close>: the
  exchange is appended to that session and \<open>user-1\<close> is left alone. The two keys differ.
\<close>

theorem process_question_default_session:
  "process_question env q None w = process_question env q (Some ''user-1'') w
   \<and> (\<forall>p w1 raw. build_sql_prompt env w = (Inr p, w1)
          \<and> llm_sql env p (session_messages w ''user-1'') q = Inr raw \<longrightarrow>
        session_messages (snd (process_question env q None w)) ''user-1''
          = session_messages w ''user-1'' @ [HumanMessage q, AIMessage raw])
   \<and> (wf_world w \<longrightarrow>
        session_messages (snd (process_question env q None w)) ''default-session''
          = session_messages w ''default-session'')
   \<and> (data ''session_id'' = None \<longrightarrow>
        AskQuestion_post venv data vw
          = (case process_question venv (data ''question'') (Some ''default-session'') vw of
               (Inl e, w1) \<Rightarrow> (Inl e, w1)
             | (Inr answer, w1) \<Rightarrow> (Inr [(''answer'', answer)], w1))
        \<and> (\<forall>p w1 raw. build_sql_prompt venv vw = (Inr p, w1)
              \<and> llm_sql venv p (session_messages vw ''default-session'') (data ''question'')
                  = Inr raw \<longrightarrow>
            session_messages (snd (AskQuestion_post venv data vw)) ''default-session''
              = session_messages vw ''default-session''
                  @ [HumanMessage (data ''question''), AIMessage raw])
        \<and> (wf_world vw \<longrightarrow>
            session_messages (snd (AskQuestion_post venv data vw)) ''user-1''
              = session_messages vw ''user-1''))
   \<and> ''user-1'' \<noteq> ''default-session''"
proof (intro conjI allI impI)
  show "process_question env q None w = process_question env q (Some ''user-1'') w"
    by (simp add: process_question_def)
next
  fix p w1 raw
  assume "build_sql_prompt env w = (Inr p, w1)
          \<and> llm_sql env p (session_messages w ''user-1'') q = Inr raw"
  then show "session_messages (snd (process_question env q None w)) ''user-1''
          = session_messages w ''user-1'' @ [HumanMessage q, AIMessage raw]"
    using process_question_own_session[of env w p w1 None q raw] by simp
next
  assume "wf_world w"
  then show "session_messages (snd (process_question env q None w)) ''default-session''
          = session_messages w ''default-session''"
    by (rule process_question_other_session) simp
next
  assume "data ''session_id'' = None"
  then show "AskQuestion_post venv data vw
          = (case process_question venv (data ''question'') (Some ''default-session'') vw of
               (Inl e, w1) \<Rightarrow> (Inl e, w1)
             | (Inr answer, w1) \<Rightarrow> (Inr [(''answer'', answer)], w1))"
    by (simp add: AskQuestion_post_def)
next
  fix p w1 raw
  assume d: "data ''session_id'' = None"
    and "build_sql_prompt venv vw = (Inr p, w1)
              \<and> llm_sql venv p (session_messages vw ''default-session'') (data ''question'')
                  = Inr raw"
  then show "session_messages (snd (AskQuestion_post venv data vw)) ''default-session''
              = session_messages vw ''default-session''
                  @ [HumanMessage (data ''question''), AIMessage raw]"
    using process_question_own_session[of venv vw p w1 "Some ''default-session''"
        "data ''question''" raw]
    by (simp add: AskQuestion_post_world)
next
  assume d: "data ''session_id'' = None" and "wf_world vw"
  from this(2) have
    "session_messages (snd (process_question venv (data ''question'')
        (Some ''default-session'') vw)) ''user-1'' = session_messages vw ''user-1''"
    by (rule process_question_other_session) simp
  with d show "session_messages (snd (AskQuestion_post venv data vw)) ''user-1''
              = session_messages vw ''user-1''"
    by (simp add: AskQuestion_post_world)
next
  show "''user-1'' \<noteq> ''default-session''" by simp
qed

lemma view_prompt:
  "build_sql_prompt view_env initial_world
     = (Inr (PromptTemplate (sql_prompt_text ''customers(customerNumber)'')),
        initial_world\<lparr>introspections := 1,
          schema_cache := Some ''customers(customerNumber)''\<rparr>)"
  by (simp add: build_sql_prompt_def get_schema_description_def view_env_def initial_world_def)

lemma session_messages_initial: "session_messages initial_world k = []"
  by (simp add: session_messages_def initial_world_def)

theorem process_question_default_session_witness:
  "session_messages (snd (process_question example_env ''customers'' None initial_world))
        ''user-1''
       = [HumanMessage ''customers'',
          AIMessage (''```sql'' @ NL # ''SELECT customer_id FROM customers'' @ NL # ''```'')]
   \<and> session_messages (snd (process_question example_env ''customers'' None initial_world))
        ''default-session'' = []
   \<and> session_messages
        (snd (AskQuestion_post view_env [''question'' \<mapsto> ''customers''] initial_world))
        ''default-session''
       = [HumanMessage (Some ''customers''), AIMessage ''SELECT 1'']
   \<and> session_messages
        (snd (AskQuestion_post view_env [''question'' \<mapsto> ''customers''] initial_world))
        ''user-1'' = []"
proof -
  let ?p = "PromptTemplate (sql_prompt_text ''customers(customerNumber)'')"
  let ?data = "[''question'' \<mapsto> ''customers'']"
  have l: "llm_sql example_env ?p (session_messages initial_world ''user-1'') ''customers''
      = Inr (''```sql'' @ NL # ''SELECT customer_id FROM customers'' @ NL # ''```'')"
    by (simp add: example_env_def)
  have v: "llm_sql view_env ?p (session_messages initial_world ''default-session'')
      (?data ''question'') = Inr ''SELECT 1''"
    by (simp add: view_env_def)
  have d: "?data ''session_id'' = None"
    by simp
  note t = process_question_default_session[of example_env "''customers''" initial_world
      ?data view_env initial_world]
  note own = t[THEN conjunct2, THEN conjunct1, rule_format, OF conjI[OF example_prompt l]]
  note other = t[THEN conjunct2, THEN conjunct2, THEN conjunct1, rule_format, OF wf_world_initial]
  note view = t[THEN conjunct2, THEN conjunct2, THEN conjunct2, THEN conjunct1, rule_format, OF d]
  note view_own = view[THEN conjunct2, THEN conjunct1, rule_format, OF conjI[OF view_prompt v]]
  note view_other = view[THEN conjunct2, THEN conjunct2, rule_format, OF wf_world_initial]
  have 1: "session_messages (snd (process_question example_env ''customers'' None initial_world))
        ''user-1''
       = [HumanMessage ''customers'',
          AIMessage (''```sql'' @ NL # ''SELECT customer_id FROM customers'' @ NL # ''```'')]"
    unfolding own by (simp add: session_messages_initial)
  have 2: "session_messages (snd (process_question example_env ''customers'' None initial_world))
        ''default-session'' = []"
    unfolding other by (rule session_messages_initial)
  have 3: "session_messages (snd (AskQuestion_post view_env ?data initial_world))
        ''default-session''
       = [HumanMessage (Some ''customers''), AIMessage ''SELECT 1'']"
    unfolding view_own by (simp add: session_messages_initial)
  have 4: "session_messages (snd (AskQuestion_post view_env ?data initial_world)) ''user-1'' = []"
    unfolding view_other by (rule session_messages_initial)
  show ?thesis
    by (rule conjI[OF 1 conjI[OF 2 conjI[OF 3 4]]])
qed

end
